theory Spec2Isabelle
  imports Main "HOL-Library.Word"
begin

section \<open>Data model of smart\_pointers.h\<close>

text \<open>
  Control blocks live in an explicit heap, addressed by the number the allocator handed
  out. The allocator, the destruction policy (\<open>Deleter\<close>) and the managed type \<open>T\<close> are
  template parameters of the source: their calls are recorded, in the order they start,
  in a log. The allocator hands out a storage address it has never handed out before,
  or throws. A managed object may hold observers as members (a node that observes
  itself, or its parent); the destructor of \<open>T\<close>, which the destruction policy runs,
  destroys them.
\<close>

type_synonym addr = nat

text \<open>\<open>size_t\<close> of a 64-bit target: \<open>++\<close> and \<open>--\<close> wrap around.\<close>

type_synonym size_t = "64 word"

text \<open>
  A non-null \<open>T*\<close>: either an object the caller allocated, or the member \<open>object\<close>
  embedded in the \<open>ControlBlockMakeShared\<close> stored at an address. \<open>nullptr\<close> is \<open>None\<close>.
\<close>

datatype obj_ptr = Ext nat | Emb addr

text \<open>The two classes derived from \<open>BaseControlBlock\<close>, with the field the model reads.\<close>

datatype derived = ControlBlockRegular (reg_ptr: "obj_ptr option") | ControlBlockMakeShared

record BaseControlBlock =
  shared_count :: size_t
  weak_count :: size_t
  derived :: derived

datatype event =
    Allocate addr
  | DeleterCall addr "obj_ptr option"
  | ObjectDestroy addr
  | Deallocate addr

record SharedPtr =
  ptr :: "obj_ptr option"
  block :: "addr option"

record WeakPtr =
  wblock :: "addr option"

text \<open>
  \<open>members\<close> gives the observers that are members of a managed object, in the order
  its destructor destroys them.
\<close>

record memory =
  heap :: "addr \<rightharpoonup> BaseControlBlock"
  live :: "obj_ptr set"
  members :: "obj_ptr \<Rightarrow> WeakPtr list"
  log :: "event list"
  next_block :: addr

text \<open>
  \<open>bad_alloc\<close> is the exception of the allocator and \<open>ctor_exception\<close> one thrown by a
  constructor of \<open>T\<close>; they carry the memory as it is when the exception leaves the
  operation. The other errors are undefined behaviour of the source (\<open>block->\<close> on a
  null pointer or on storage already deallocated) and, for the program level below, the
  use of a variable that is not alive.
\<close>

datatype error =
    bad_alloc memory
  | ctor_exception memory
  | null_deref
  | use_after_free
  | no_such_owner

section \<open>Control blocks\<close>

definition allocate :: "bool \<Rightarrow> memory \<Rightarrow> error + (addr \<times> memory)" where
  "allocate ok m =
     (if ok
      then Inr (next_block m,
                m\<lparr>log := log m @ [Allocate (next_block m)], next_block := Suc (next_block m)\<rparr>)
      else Inl (bad_alloc m))"

definition store :: "addr \<Rightarrow> BaseControlBlock \<Rightarrow> memory \<Rightarrow> memory" where
  "store b blk m = m\<lparr>heap := (heap m)(b \<mapsto> blk)\<rparr>"

text \<open>\<open>block->\<close>: the block a pointer designates, when there is one.\<close>

definition deref :: "addr option \<Rightarrow> memory \<Rightarrow> error + (addr \<times> BaseControlBlock)" where
  "deref bp m =
     (case bp of
        None \<Rightarrow> Inl null_deref
      | Some b \<Rightarrow> (case heap m b of None \<Rightarrow> Inl use_after_free | Some blk \<Rightarrow> Inr (b, blk)))"

definition get_ptr :: "addr \<Rightarrow> BaseControlBlock \<Rightarrow> obj_ptr option" where
  "get_ptr b blk =
     (case derived blk of ControlBlockRegular p \<Rightarrow> p | ControlBlockMakeShared \<Rightarrow> Some (Emb b))"

definition deallocate_block :: "addr \<Rightarrow> memory \<Rightarrow> memory" where
  "deallocate_block b m = m\<lparr>heap := (heap m)(b := None), log := log m @ [Deallocate b]\<rparr>"

text \<open>\<open>~WeakPtr()\<close>, which the teardown of an object runs on its members.\<close>

definition WeakPtr_dtor :: "WeakPtr \<Rightarrow> memory \<Rightarrow> error + memory" where
  "WeakPtr_dtor this m =
     (if wblock this = None then Inr m
      else (case deref (wblock this) m of
              Inl e \<Rightarrow> Inl e
            | Inr (b, blk) \<Rightarrow>
                let blk1 = blk\<lparr>weak_count := weak_count blk - 1\<rparr>;
                    m1 = store b blk1 m
                in if shared_count blk1 = 0 \<and> weak_count blk1 = 0
                   then Inr (deallocate_block b m1)
                   else Inr m1))"

fun destroy_members :: "WeakPtr list \<Rightarrow> memory \<Rightarrow> error + memory" where
  "destroy_members [] m = Inr m"
| "destroy_members (w # ws) m =
     (case WeakPtr_dtor w m of Inl e \<Rightarrow> Inl e | Inr m' \<Rightarrow> destroy_members ws m')"

text \<open>
  \<open>~T()\<close> on an object (nothing on \<open>nullptr\<close>): its members are destroyed and the object
  is no longer alive.
\<close>

definition destroy_object :: "obj_ptr option \<Rightarrow> memory \<Rightarrow> error + memory" where
  "destroy_object po m =
     (case po of
        None \<Rightarrow> Inr m
      | Some p \<Rightarrow>
          (case destroy_members (members m p) m of
             Inl e \<Rightarrow> Inl e
           | Inr m1 \<Rightarrow> Inr (m1\<lparr>live := live m1 - {p}, members := (members m1)(p := [])\<rparr>)))"

text \<open>
  \<open>destroy_ptr()\<close> of the block \<open>blk\<close> stored at \<open>b\<close>. \<open>ControlBlockRegular\<close> writes
  \<open>ptr = nullptr\<close> into the block after the destruction policy has returned.
\<close>

definition destroy_ptr :: "addr \<Rightarrow> BaseControlBlock \<Rightarrow> memory \<Rightarrow> error + memory" where
  "destroy_ptr b blk m =
     (case derived blk of
        ControlBlockRegular p \<Rightarrow>
          (case destroy_object p (m\<lparr>log := log m @ [DeleterCall b p]\<rparr>) of
             Inl e \<Rightarrow> Inl e
           | Inr m1 \<Rightarrow>
               (case deref (Some b) m1 of
                  Inl e \<Rightarrow> Inl e
                | Inr (b', blk') \<Rightarrow> Inr (store b (blk'\<lparr>derived := ControlBlockRegular None\<rparr>) m1)))
      | ControlBlockMakeShared \<Rightarrow>
          destroy_object (Some (Emb b)) (m\<lparr>log := log m @ [ObjectDestroy b]\<rparr>))"

section \<open>SharedPtr\<close>

definition SharedPtr_default :: SharedPtr where
  "SharedPtr_default = \<lparr>ptr = None, block = None\<rparr>"

text \<open>\<open>SharedPtr(U* ptr, Deleter del, Alloc alloc)\<close>; \<open>ok\<close> is the outcome of \<open>allocate\<close>.\<close>

definition SharedPtr_raw :: "obj_ptr option \<Rightarrow> bool \<Rightarrow> memory \<Rightarrow> error + (SharedPtr \<times> memory)" where
  "SharedPtr_raw p ok m =
     (case allocate ok m of
        Inl e \<Rightarrow> Inl e
      | Inr (b, m1) \<Rightarrow>
          let blk = \<lparr>shared_count = 0, weak_count = 0, derived = ControlBlockRegular p\<rparr>
          in Inr (\<lparr>ptr = p, block = Some b\<rparr>,
                  store b (blk\<lparr>shared_count := shared_count blk + 1\<rparr>) m1))"

definition use_count :: "SharedPtr \<Rightarrow> memory \<Rightarrow> error + size_t" where
  "use_count this m =
     (case deref (block this) m of Inl e \<Rightarrow> Inl e | Inr (b, blk) \<Rightarrow> Inr (shared_count blk))"

text \<open>
  \<open>SharedPtr(Alloc alloc, Args&&... args)\<close>: one allocation, then \<open>construct\<close> builds
  the block and, in it, the object. \<open>ok\<close> is the outcome of \<open>allocate\<close> and \<open>built\<close>
  tells whether the constructor of \<open>T\<close> returns; when it throws, nothing catches the
  exception and the storage just allocated is not given back.
\<close>

definition SharedPtr_alloc :: "bool \<Rightarrow> bool \<Rightarrow> memory \<Rightarrow> error + (SharedPtr \<times> memory)" where
  "SharedPtr_alloc ok built m =
     (case allocate ok m of
        Inl e \<Rightarrow> Inl e
      | Inr (b, m1) \<Rightarrow>
          if \<not> built then Inl (ctor_exception m1)
          else
            let blk = \<lparr>shared_count = 0, weak_count = 0, derived = ControlBlockMakeShared\<rparr>;
                m2 = m1\<lparr>live := insert (Emb b) (live m1)\<rparr>
            in Inr (\<lparr>ptr = Some (Emb b), block = Some b\<rparr>,
                    store b (blk\<lparr>shared_count := shared_count blk + 1\<rparr>) m2))"

definition allocateShared :: "bool \<Rightarrow> bool \<Rightarrow> memory \<Rightarrow> error + (SharedPtr \<times> memory)" where
  "allocateShared ok built m = SharedPtr_alloc ok built m"

definition makeShared :: "bool \<Rightarrow> bool \<Rightarrow> memory \<Rightarrow> error + (SharedPtr \<times> memory)" where
  "makeShared ok built m = allocateShared ok built m"

text \<open>\<open>SharedPtr(const SharedPtr&)\<close>, also from a \<open>SharedPtr<U>\<close>.\<close>

definition SharedPtr_copy :: "SharedPtr \<Rightarrow> memory \<Rightarrow> error + (SharedPtr \<times> memory)" where
  "SharedPtr_copy other m =
     (let this = \<lparr>ptr = ptr other, block = block other\<rparr>
      in if block other \<noteq> None
         then (case deref (block this) m of
                 Inl e \<Rightarrow> Inl e
               | Inr (b, blk) \<Rightarrow>
                   Inr (this, store b (blk\<lparr>shared_count := shared_count blk + 1\<rparr>) m))
         else Inr (this, m))"

text \<open>\<open>SharedPtr(SharedPtr&&)\<close>: the new owner and what is left in \<open>other\<close>.\<close>

definition SharedPtr_move :: "SharedPtr \<Rightarrow> SharedPtr \<times> SharedPtr" where
  "SharedPtr_move other =
     (\<lparr>ptr = ptr other, block = block other\<rparr>, other\<lparr>ptr := None, block := None\<rparr>)"

text \<open>\<open>SharedPtr(const WeakPtr&)\<close>: no test of \<open>shared_count\<close> before the increment.\<close>

definition SharedPtr_from_weak :: "WeakPtr \<Rightarrow> memory \<Rightarrow> error + (SharedPtr \<times> memory)" where
  "SharedPtr_from_weak weak m =
     (case deref (wblock weak) m of
        Inl e \<Rightarrow> Inl e
      | Inr (b, blk) \<Rightarrow>
          Inr (\<lparr>ptr = get_ptr b blk, block = wblock weak\<rparr>,
               store b (blk\<lparr>shared_count := shared_count blk + 1\<rparr>) m))"

definition SharedPtr_swap :: "SharedPtr \<Rightarrow> SharedPtr \<Rightarrow> SharedPtr \<times> SharedPtr" where
  "SharedPtr_swap this other = (other, this)"

text \<open>
  \<open>~SharedPtr()\<close>. After \<open>destroy_ptr()\<close> has returned, \<open>block->weak_count\<close> is read
  from the block again.
\<close>

definition SharedPtr_dtor :: "SharedPtr \<Rightarrow> memory \<Rightarrow> error + memory" where
  "SharedPtr_dtor this m =
     (if block this = None then Inr m
      else (case deref (block this) m of
              Inl e \<Rightarrow> Inl e
            | Inr (b, blk) \<Rightarrow>
                let blk1 = blk\<lparr>shared_count := shared_count blk - 1\<rparr>;
                    m1 = store b blk1 m
                in if shared_count blk1 \<noteq> 0 then Inr m1
                   else (case destroy_ptr b blk1 m1 of
                           Inl e \<Rightarrow> Inl e
                         | Inr m2 \<Rightarrow>
                             (case deref (block this) m2 of
                                Inl e \<Rightarrow> Inl e
                              | Inr (b2, blk2) \<Rightarrow>
                                  if weak_count blk2 = 0 then Inr (deallocate_block b2 m2)
                                  else Inr m2))))"

section \<open>WeakPtr\<close>

definition WeakPtr_default :: WeakPtr where
  "WeakPtr_default = \<lparr>wblock = None\<rparr>"

text \<open>\<open>WeakPtr(const SharedPtr&)\<close>: no test for an empty owner.\<close>

definition WeakPtr_from_shared :: "SharedPtr \<Rightarrow> memory \<Rightarrow> error + (WeakPtr \<times> memory)" where
  "WeakPtr_from_shared shared m =
     (case deref (block shared) m of
        Inl e \<Rightarrow> Inl e
      | Inr (b, blk) \<Rightarrow>
          Inr (\<lparr>wblock = block shared\<rparr>, store b (blk\<lparr>weak_count := weak_count blk + 1\<rparr>) m))"

text \<open>\<open>WeakPtr(const WeakPtr&)\<close>: no test for an unbound observer.\<close>

definition WeakPtr_copy :: "WeakPtr \<Rightarrow> memory \<Rightarrow> error + (WeakPtr \<times> memory)" where
  "WeakPtr_copy weak m =
     (case deref (wblock weak) m of
        Inl e \<Rightarrow> Inl e
      | Inr (b, blk) \<Rightarrow>
          Inr (\<lparr>wblock = wblock weak\<rparr>, store b (blk\<lparr>weak_count := weak_count blk + 1\<rparr>) m))"

definition WeakPtr_move :: "WeakPtr \<Rightarrow> WeakPtr \<times> WeakPtr" where
  "WeakPtr_move weak = (\<lparr>wblock = wblock weak\<rparr>, weak\<lparr>wblock := None\<rparr>)"

definition WeakPtr_swap :: "WeakPtr \<Rightarrow> WeakPtr \<Rightarrow> WeakPtr \<times> WeakPtr" where
  "WeakPtr_swap this other = (other, this)"

definition expired :: "WeakPtr \<Rightarrow> memory \<Rightarrow> error + bool" where
  "expired this m =
     (case deref (wblock this) m of Inl e \<Rightarrow> Inl e | Inr (b, blk) \<Rightarrow> Inr (shared_count blk = 0))"

definition lock :: "WeakPtr \<Rightarrow> memory \<Rightarrow> error + (SharedPtr \<times> memory)" where
  "lock this m =
     (case expired this m of
        Inl e \<Rightarrow> Inl e
      | Inr ex \<Rightarrow> if ex then Inr (SharedPtr_default, m) else SharedPtr_from_weak this m)"

section \<open>Assignment and reset\<close>

text \<open>
  Every assignment operator builds a local \<open>copy\<close>, swaps it with \<open>*this\<close> and lets the
  destructor of \<open>copy\<close> release what \<open>*this\<close> held. The functions return the new value of
  \<open>*this\<close> (and of \<open>other\<close>, where the operator takes it by non-const reference).
\<close>

definition SharedPtr_assign_copy ::
  "SharedPtr \<Rightarrow> SharedPtr \<Rightarrow> memory \<Rightarrow> error + (SharedPtr \<times> memory)" where
  "SharedPtr_assign_copy this other m =
     (case SharedPtr_copy other m of
        Inl e \<Rightarrow> Inl e
      | Inr (copy, m1) \<Rightarrow>
          let (this', copy') = SharedPtr_swap this copy
          in (case SharedPtr_dtor copy' m1 of Inl e \<Rightarrow> Inl e | Inr m2 \<Rightarrow> Inr (this', m2)))"

text \<open>
  \<open>operator=(SharedPtr&&)\<close>, for \<open>other\<close> an object different from \<open>*this\<close>
  (the program level below treats \<open>a = std::move(a)\<close>).
\<close>

definition SharedPtr_assign_move ::
  "SharedPtr \<Rightarrow> SharedPtr \<Rightarrow> memory \<Rightarrow> error + ((SharedPtr \<times> SharedPtr) \<times> memory)" where
  "SharedPtr_assign_move this other m =
     (let (copy, other') = SharedPtr_move other;
          (this', copy') = SharedPtr_swap this copy
      in (case SharedPtr_dtor copy' m of Inl e \<Rightarrow> Inl e | Inr m1 \<Rightarrow> Inr ((this', other'), m1)))"

text \<open>\<open>reset()\<close> is \<open>*this = SharedPtr<T>()\<close>: a move assignment from a temporary.\<close>

definition reset :: "SharedPtr \<Rightarrow> memory \<Rightarrow> error + (SharedPtr \<times> memory)" where
  "reset this m =
     (case SharedPtr_assign_move this SharedPtr_default m of
        Inl e \<Rightarrow> Inl e
      | Inr ((this', tmp), m1) \<Rightarrow>
          (case SharedPtr_dtor tmp m1 of Inl e \<Rightarrow> Inl e | Inr m2 \<Rightarrow> Inr (this', m2)))"

text \<open>\<open>reset(new_ptr)\<close> is \<open>*this = SharedPtr<T>(new_ptr)\<close>.\<close>

definition reset_ptr ::
  "SharedPtr \<Rightarrow> obj_ptr option \<Rightarrow> bool \<Rightarrow> memory \<Rightarrow> error + (SharedPtr \<times> memory)" where
  "reset_ptr this new_ptr ok m =
     (case SharedPtr_raw new_ptr ok m of
        Inl e \<Rightarrow> Inl e
      | Inr (tmp0, m0) \<Rightarrow>
          (case SharedPtr_assign_move this tmp0 m0 of
             Inl e \<Rightarrow> Inl e
           | Inr ((this', tmp), m1) \<Rightarrow>
               (case SharedPtr_dtor tmp m1 of Inl e \<Rightarrow> Inl e | Inr m2 \<Rightarrow> Inr (this', m2))))"

text \<open>\<open>WeakPtr::operator=(const WeakPtr&)\<close>: \<open>auto copy = other; swap(copy);\<close>\<close>

definition WeakPtr_assign_copy ::
  "WeakPtr \<Rightarrow> WeakPtr \<Rightarrow> memory \<Rightarrow> error + (WeakPtr \<times> memory)" where
  "WeakPtr_assign_copy this other m =
     (case WeakPtr_copy other m of
        Inl e \<Rightarrow> Inl e
      | Inr (copy, m1) \<Rightarrow>
          let (this', copy') = WeakPtr_swap this copy
          in (case WeakPtr_dtor copy' m1 of Inl e \<Rightarrow> Inl e | Inr m2 \<Rightarrow> Inr (this', m2)))"

text \<open>
  \<open>WeakPtr::operator=(WeakPtr&&)\<close> has the same body, \<open>auto copy = other;\<close>: the
  parameter \<open>other\<close> is a named reference, an lvalue, so \<open>copy\<close> is built by the copy
  constructor and \<open>other\<close> is not written.
\<close>

definition WeakPtr_assign_move ::
  "WeakPtr \<Rightarrow> WeakPtr \<Rightarrow> memory \<Rightarrow> error + ((WeakPtr \<times> WeakPtr) \<times> memory)" where
  "WeakPtr_assign_move this other m =
     (case WeakPtr_copy other m of
        Inl e \<Rightarrow> Inl e
      | Inr (copy, m1) \<Rightarrow>
          let (this', copy') = WeakPtr_swap this copy
          in (case WeakPtr_dtor copy' m1 of
                Inl e \<Rightarrow> Inl e
              | Inr m2 \<Rightarrow> Inr ((this', other), m2)))"

section \<open>Programs: owner variables and sequences of operations\<close>

text \<open>
  A program state is the memory together with the owner variables declared so far, in
  the order of their declaration; a variable whose lifetime has ended is \<open>None\<close>.
  An operation names its operands by their index and a constructor declares a new
  variable at the end. A failed allocation is an exception the program catches. The
  objects of a program hold no observers, and their constructors return.
\<close>

record machine =
  mem :: memory
  sps :: "SharedPtr option list"
  wps :: "WeakPtr option list"

datatype op =
    S_default
  | S_raw "obj_ptr option" bool
  | S_make bool
  | S_copy nat
  | S_move nat
  | S_from_weak nat
  | S_assign_copy nat nat
  | S_assign_move nat nat
  | S_reset nat
  | S_reset_ptr nat "obj_ptr option" bool
  | S_swap nat nat
  | S_destroy nat
  | W_default
  | W_from_shared nat
  | W_copy nat
  | W_move nat
  | W_assign_copy nat nat
  | W_assign_move nat nat
  | W_swap nat nat
  | W_lock nat
  | W_destroy nat

definition init_memory :: memory where
  "init_memory =
     \<lparr>heap = Map.empty, live = {}, members = (\<lambda>p. []), log = [], next_block = 0\<rparr>"

definition init :: machine where
  "init = \<lparr>mem = init_memory, sps = [], wps = []\<rparr>"

definition owner :: "'a option list \<Rightarrow> nat \<Rightarrow> error + 'a" where
  "owner xs i =
     (if i < length xs
      then (case xs ! i of None \<Rightarrow> Inl no_such_owner | Some x \<Rightarrow> Inr x)
      else Inl no_such_owner)"

text \<open>The outcome of a constructor that may throw \<open>bad_alloc\<close>, seen by the program.\<close>

definition declare_sp :: "machine \<Rightarrow> error + (SharedPtr \<times> memory) \<Rightarrow> error + machine" where
  "declare_sp s r =
     (case r of
        Inl (bad_alloc m) \<Rightarrow> Inr (s\<lparr>mem := m\<rparr>)
      | Inl e \<Rightarrow> Inl e
      | Inr (x, m) \<Rightarrow> Inr (s\<lparr>mem := m, sps := sps s @ [Some x]\<rparr>))"

definition declare_wp :: "machine \<Rightarrow> error + (WeakPtr \<times> memory) \<Rightarrow> error + machine" where
  "declare_wp s r =
     (case r of
        Inl (bad_alloc m) \<Rightarrow> Inr (s\<lparr>mem := m\<rparr>)
      | Inl e \<Rightarrow> Inl e
      | Inr (x, m) \<Rightarrow> Inr (s\<lparr>mem := m, wps := wps s @ [Some x]\<rparr>))"

definition assign_sp :: "machine \<Rightarrow> nat \<Rightarrow> error + (SharedPtr \<times> memory) \<Rightarrow> error + machine" where
  "assign_sp s i r =
     (case r of
        Inl (bad_alloc m) \<Rightarrow> Inr (s\<lparr>mem := m\<rparr>)
      | Inl e \<Rightarrow> Inl e
      | Inr (x, m) \<Rightarrow> Inr (s\<lparr>mem := m, sps := (sps s)[i := Some x]\<rparr>))"

definition assign_wp :: "machine \<Rightarrow> nat \<Rightarrow> error + (WeakPtr \<times> memory) \<Rightarrow> error + machine" where
  "assign_wp s i r =
     (case r of
        Inl (bad_alloc m) \<Rightarrow> Inr (s\<lparr>mem := m\<rparr>)
      | Inl e \<Rightarrow> Inl e
      | Inr (x, m) \<Rightarrow> Inr (s\<lparr>mem := m, wps := (wps s)[i := Some x]\<rparr>))"

fun step :: "op \<Rightarrow> machine \<Rightarrow> error + machine" where
  "step S_default s = Inr (s\<lparr>sps := sps s @ [Some SharedPtr_default]\<rparr>)"
| "step (S_raw p ok) s = declare_sp s (SharedPtr_raw p ok (mem s))"
| "step (S_make ok) s = declare_sp s (makeShared ok True (mem s))"
| "step (S_copy k) s =
     (case owner (sps s) k of
        Inl e \<Rightarrow> Inl e
      | Inr other \<Rightarrow> declare_sp s (SharedPtr_copy other (mem s)))"
| "step (S_move k) s =
     (case owner (sps s) k of
        Inl e \<Rightarrow> Inl e
      | Inr other \<Rightarrow>
          let (this, other') = SharedPtr_move other
          in Inr (s\<lparr>sps := (sps s)[k := Some other'] @ [Some this]\<rparr>))"
| "step (S_from_weak j) s =
     (case owner (wps s) j of
        Inl e \<Rightarrow> Inl e
      | Inr weak \<Rightarrow> declare_sp s (SharedPtr_from_weak weak (mem s)))"
| "step (S_assign_copy i k) s =
     (case owner (sps s) i of
        Inl e \<Rightarrow> Inl e
      | Inr this \<Rightarrow>
          (case owner (sps s) k of
             Inl e \<Rightarrow> Inl e
           | Inr other \<Rightarrow> assign_sp s i (SharedPtr_assign_copy this other (mem s))))"
| "step (S_assign_move i k) s =
     (case owner (sps s) i of
        Inl e \<Rightarrow> Inl e
      | Inr this \<Rightarrow>
          (case owner (sps s) k of
             Inl e \<Rightarrow> Inl e
           | Inr other \<Rightarrow>
               \<comment> \<open>in \<open>a = std::move(a)\<close> the move constructor has emptied \<open>*this\<close> before the swap\<close>
               let this_now = (if i = k then snd (SharedPtr_move other) else this)
               in (case SharedPtr_assign_move this_now other (mem s) of
                     Inl e \<Rightarrow> Inl e
                   | Inr ((this', other'), m) \<Rightarrow>
                       Inr (s\<lparr>mem := m, sps := (sps s)[k := Some other', i := Some this']\<rparr>))))"
| "step (S_reset i) s =
     (case owner (sps s) i of
        Inl e \<Rightarrow> Inl e
      | Inr this \<Rightarrow> assign_sp s i (reset this (mem s)))"
| "step (S_reset_ptr i p ok) s =
     (case owner (sps s) i of
        Inl e \<Rightarrow> Inl e
      | Inr this \<Rightarrow> assign_sp s i (reset_ptr this p ok (mem s)))"
| "step (S_swap i k) s =
     (case owner (sps s) i of
        Inl e \<Rightarrow> Inl e
      | Inr this \<Rightarrow>
          (case owner (sps s) k of
             Inl e \<Rightarrow> Inl e
           | Inr other \<Rightarrow>
               let (this', other') = SharedPtr_swap this other
               in Inr (s\<lparr>sps := (sps s)[i := Some this', k := Some other']\<rparr>)))"
| "step (S_destroy i) s =
     (case owner (sps s) i of
        Inl e \<Rightarrow> Inl e
      | Inr this \<Rightarrow>
          (case SharedPtr_dtor this (mem s) of
             Inl e \<Rightarrow> Inl e
           | Inr m \<Rightarrow> Inr (s\<lparr>mem := m, sps := (sps s)[i := None]\<rparr>)))"
| "step W_default s = Inr (s\<lparr>wps := wps s @ [Some WeakPtr_default]\<rparr>)"
| "step (W_from_shared i) s =
     (case owner (sps s) i of
        Inl e \<Rightarrow> Inl e
      | Inr shared \<Rightarrow> declare_wp s (WeakPtr_from_shared shared (mem s)))"
| "step (W_copy j) s =
     (case owner (wps s) j of
        Inl e \<Rightarrow> Inl e
      | Inr weak \<Rightarrow> declare_wp s (WeakPtr_copy weak (mem s)))"
| "step (W_move j) s =
     (case owner (wps s) j of
        Inl e \<Rightarrow> Inl e
      | Inr weak \<Rightarrow>
          let (this, weak') = WeakPtr_move weak
          in Inr (s\<lparr>wps := (wps s)[j := Some weak'] @ [Some this]\<rparr>))"
| "step (W_assign_copy j k) s =
     (case owner (wps s) j of
        Inl e \<Rightarrow> Inl e
      | Inr this \<Rightarrow>
          (case owner (wps s) k of
             Inl e \<Rightarrow> Inl e
           | Inr other \<Rightarrow> assign_wp s j (WeakPtr_assign_copy this other (mem s))))"
| "step (W_assign_move j k) s =
     (case owner (wps s) j of
        Inl e \<Rightarrow> Inl e
      | Inr this \<Rightarrow>
          (case owner (wps s) k of
             Inl e \<Rightarrow> Inl e
           | Inr other \<Rightarrow>
               (case WeakPtr_assign_move this other (mem s) of
                  Inl e \<Rightarrow> Inl e
                | Inr ((this', other'), m) \<Rightarrow>
                    Inr (s\<lparr>mem := m, wps := (wps s)[k := Some other', j := Some this']\<rparr>))))"
| "step (W_swap j k) s =
     (case owner (wps s) j of
        Inl e \<Rightarrow> Inl e
      | Inr this \<Rightarrow>
          (case owner (wps s) k of
             Inl e \<Rightarrow> Inl e
           | Inr other \<Rightarrow>
               let (this', other') = WeakPtr_swap this other
               in Inr (s\<lparr>wps := (wps s)[j := Some this', k := Some other']\<rparr>)))"
| "step (W_lock j) s =
     (case owner (wps s) j of
        Inl e \<Rightarrow> Inl e
      | Inr weak \<Rightarrow> declare_sp s (lock weak (mem s)))"
| "step (W_destroy j) s =
     (case owner (wps s) j of
        Inl e \<Rightarrow> Inl e
      | Inr this \<Rightarrow>
          (case WeakPtr_dtor this (mem s) of
             Inl e \<Rightarrow> Inl e
           | Inr m \<Rightarrow> Inr (s\<lparr>mem := m, wps := (wps s)[j := None]\<rparr>)))"

fun run :: "op list \<Rightarrow> machine \<Rightarrow> error + machine" where
  "run [] s = Inr s"
| "run (x # xs) s = (case step x s of Inl e \<Rightarrow> Inl e | Inr s' \<Rightarrow> run xs s')"

section \<open>Example memories\<close>

definition example_block :: BaseControlBlock where
  "example_block =
     \<lparr>shared_count = 1, weak_count = 0, derived = ControlBlockRegular (Some (Ext 0))\<rparr>"

definition example_memory :: memory where
  "example_memory =
     \<lparr>heap = [0 \<mapsto> example_block], live = {Ext 0}, members = (\<lambda>p. []),
      log = [Allocate 0], next_block = 1\<rparr>"

text \<open>
  The words of the allocation-failure claim: the object and a block with
  \<open>shared_count == 1\<close> both exist, or neither does.
\<close>

definition both_or_neither :: "obj_ptr \<Rightarrow> addr \<Rightarrow> memory \<Rightarrow> bool" where
  "both_or_neither p b m \<longleftrightarrow>
     (p \<in> live m \<and> (case heap m b of None \<Rightarrow> False | Some blk \<Rightarrow> shared_count blk = 1))
     \<or> (p \<notin> live m \<and> heap m b = None)"

definition caller_memory :: memory where
  "caller_memory =
     \<lparr>heap = Map.empty, live = {Ext 0}, members = (\<lambda>p. []), log = [], next_block = 0\<rparr>"

definition two_block_memory :: memory where
  "two_block_memory =
     \<lparr>heap = [0 \<mapsto> example_block,
              1 \<mapsto> \<lparr>shared_count = 1, weak_count = 0, derived = ControlBlockMakeShared\<rparr>],
      live = {Ext 0, Emb 1}, members = (\<lambda>p. []), log = [Allocate 0, Allocate 1],
      next_block = 2\<rparr>"

definition observed_memory :: memory where
  "observed_memory = store 0 (example_block\<lparr>weak_count := 1\<rparr>) example_memory"

text \<open>
  The memory after \<open>auto p = makeShared<Node>(); p->self = p;\<close> for a \<open>Node\<close> with a
  member \<open>WeakPtr<Node> self\<close>: one owner, and one observer that lives in the object.
\<close>

definition self_observer_block :: BaseControlBlock where
  "self_observer_block = \<lparr>shared_count = 1, weak_count = 1, derived = ControlBlockMakeShared\<rparr>"

definition self_observer_memory :: memory where
  "self_observer_memory =
     \<lparr>heap = [0 \<mapsto> self_observer_block], live = {Emb 0},
      members = (\<lambda>p. [])(Emb 0 := [\<lparr>wblock = Some 0\<rparr>]),
      log = [Allocate 0], next_block = 1\<rparr>"


section \<open>Vocabulary of the properties\<close>

text \<open>The largest \<open>size_t\<close>.\<close>

definition SIZE_MAX :: nat where "SIZE_MAX = 2 ^ 64 - 1"

text \<open>The block an owner variable is bound to; a dead variable is bound to none.\<close>

definition slot_block :: "SharedPtr option \<Rightarrow> addr option" where
  "slot_block x = (case x of None \<Rightarrow> None | Some p \<Rightarrow> block p)"

definition wslot_block :: "WeakPtr option \<Rightarrow> addr option" where
  "wslot_block x = (case x of None \<Rightarrow> None | Some w \<Rightarrow> wblock w)"

text \<open>The number of live owners, and of live observers, bound to a block.\<close>

definition strong_owners :: "addr \<Rightarrow> SharedPtr option list \<Rightarrow> nat" where
  "strong_owners b xs = count_list (map slot_block xs) (Some b)"

definition weak_owners :: "addr \<Rightarrow> WeakPtr option list \<Rightarrow> nat" where
  "weak_owners b xs = count_list (map wslot_block xs) (Some b)"

text \<open>
  The calls of \<open>destroy_ptr\<close> of a block that the log holds (a call of the destruction
  policy or of the destructor of the embedded object), and the number of calls of
  \<open>deallocate_block\<close>.
\<close>

fun teardown_of :: "event \<Rightarrow> addr option" where
  "teardown_of (DeleterCall b p) = Some b"
| "teardown_of (ObjectDestroy b) = Some b"
| "teardown_of (Allocate b) = None"
| "teardown_of (Deallocate b) = None"

definition teardown_events :: "addr \<Rightarrow> event list \<Rightarrow> event list" where
  "teardown_events b l = filter (\<lambda>e. teardown_of e = Some b) l"

definition deallocs :: "addr \<Rightarrow> event list \<Rightarrow> nat" where
  "deallocs b l = count_list l (Deallocate b)"

text \<open>
  Reading the log in order, \<open>deallocate_block\<close> of \<open>b\<close> is only met after a
  \<open>destroy_ptr\<close> of \<open>b\<close>; \<open>t\<close> tells whether one has been met already.
\<close>

fun dealloc_after :: "bool \<Rightarrow> addr \<Rightarrow> event list \<Rightarrow> bool" where
  "dealloc_after t b [] \<longleftrightarrow> True"
| "dealloc_after t b (e # es) \<longleftrightarrow>
     (e = Deallocate b \<longrightarrow> t) \<and> dealloc_after (t \<or> teardown_of e = Some b) b es"

text \<open>What \<open>destroy_ptr\<close> of a block records.\<close>

definition expected_teardown :: "addr \<Rightarrow> BaseControlBlock \<Rightarrow> event" where
  "expected_teardown b blk =
     (case derived blk of
        ControlBlockRegular p \<Rightarrow> DeleterCall b p
      | ControlBlockMakeShared \<Rightarrow> ObjectDestroy b)"

text \<open>
  The caller contract of \<open>SharedPtr(const WeakPtr&)\<close>: the observer is not expired.
  A program is within the contract when each of its steps is, in the state it runs in.
\<close>

fun contract :: "op \<Rightarrow> machine \<Rightarrow> bool" where
  "contract (S_from_weak j) s =
     (case owner (wps s) j of
        Inl e \<Rightarrow> True
      | Inr weak \<Rightarrow> expired weak (mem s) = Inr False)"
| "contract x s = True"

fun within_contract :: "op list \<Rightarrow> machine \<Rightarrow> bool" where
  "within_contract [] s \<longleftrightarrow> True"
| "within_contract (x # xs) s \<longleftrightarrow>
     contract x s \<and> (case step x s of Inl e \<Rightarrow> True | Inr s' \<Rightarrow> within_contract xs s')"

section \<open>Invariants\<close>

text \<open>No managed object holds an observer.\<close>

definition no_members :: "memory \<Rightarrow> bool" where
  "no_members m \<longleftrightarrow> members m = (\<lambda>p. [])"

text \<open>Adding and removing one owner of a block in a census of owners.\<close>

definition bump :: "addr option \<Rightarrow> (addr \<Rightarrow> nat) \<Rightarrow> (addr \<Rightarrow> nat)" where
  "bump x f = (case x of None \<Rightarrow> f | Some b \<Rightarrow> f(b := Suc (f b)))"

definition unbump :: "addr option \<Rightarrow> (addr \<Rightarrow> nat) \<Rightarrow> (addr \<Rightarrow> nat)" where
  "unbump x f = (case x of None \<Rightarrow> f | Some b \<Rightarrow> f(b := f b - 1))"

text \<open>
  The counts of a block are the numbers of its owners and observers, and a block that
  is still allocated has at least one of them.
\<close>

fun block_ok :: "BaseControlBlock option \<Rightarrow> nat \<Rightarrow> nat \<Rightarrow> bool" where
  "block_ok None s w \<longleftrightarrow> s = 0 \<and> w = 0"
| "block_ok (Some blk) s w \<longleftrightarrow>
     unat (shared_count blk) = s \<and> unat (weak_count blk) = w \<and> (s \<noteq> 0 \<or> w \<noteq> 0)"

definition counted :: "memory \<Rightarrow> (addr \<Rightarrow> nat) \<Rightarrow> (addr \<Rightarrow> nat) \<Rightarrow> bool" where
  "counted m sc wc \<longleftrightarrow>
     (\<forall>b. block_ok (heap m b) (sc b) (wc b)) \<and> (\<forall>b. next_block m \<le> b \<longrightarrow> heap m b = None)"

fun torn_if_dead :: "BaseControlBlock option \<Rightarrow> event list \<Rightarrow> bool" where
  "torn_if_dead None l \<longleftrightarrow> True"
| "torn_if_dead (Some blk) l \<longleftrightarrow> (shared_count blk = 0 \<longrightarrow> l \<noteq> [])"

definition log_ok_at :: "memory \<Rightarrow> addr \<Rightarrow> bool" where
  "log_ok_at m b \<longleftrightarrow>
     deallocs b (log m) = (if b < next_block m \<and> heap m b = None then 1 else 0)
     \<and> dealloc_after False b (log m)
     \<and> torn_if_dead (heap m b) (teardown_events b (log m))
     \<and> (next_block m \<le> b \<longrightarrow> teardown_events b (log m) = [])"

definition log_ok :: "memory \<Rightarrow> bool" where
  "log_ok m \<longleftrightarrow> (\<forall>b. log_ok_at m b)"

text \<open>
  The object of block \<open>b\<close> is torn down by the event \<open>e\<close>, once: not yet while
  \<open>shared_count\<close> is not 0, and exactly once after.
\<close>

fun torn_as :: "BaseControlBlock option \<Rightarrow> addr \<Rightarrow> event \<Rightarrow> event list \<Rightarrow> bool" where
  "torn_as None b e l \<longleftrightarrow> l = [e]"
| "torn_as (Some blk) b e l \<longleftrightarrow>
     (if shared_count blk = 0 then l = [e] else l = [] \<and> expected_teardown b blk = e)"

definition once_torn :: "memory \<Rightarrow> event \<Rightarrow> addr \<Rightarrow> bool" where
  "once_torn m e b \<longleftrightarrow> torn_as (heap m b) b e (teardown_events b (log m))"

definition mem_inv :: "memory \<Rightarrow> (addr \<Rightarrow> nat) \<Rightarrow> (addr \<Rightarrow> nat) \<Rightarrow> bool" where
  "mem_inv m sc wc \<longleftrightarrow> counted m sc wc \<and> log_ok m \<and> no_members m"

definition torn_pres :: "memory \<Rightarrow> memory \<Rightarrow> bool" where
  "torn_pres m m' \<longleftrightarrow>
     (\<forall>e b. b < next_block m \<longrightarrow> once_torn m e b \<longrightarrow> once_torn m' e b)
     \<and> (\<forall>b. next_block m \<le> b \<longrightarrow> b < next_block m' \<longrightarrow> (\<exists>e. once_torn m' e b))
     \<and> next_block m \<le> next_block m'"

definition sown :: "SharedPtr option list \<Rightarrow> addr \<Rightarrow> nat" where
  "sown xs b = strong_owners b xs"

definition wown :: "WeakPtr option list \<Rightarrow> addr \<Rightarrow> nat" where
  "wown xs b = weak_owners b xs"

definition minv :: "machine \<Rightarrow> bool" where
  "minv s \<longleftrightarrow> mem_inv (mem s) (sown (sps s)) (wown (wps s))"

definition step_ok :: "op \<Rightarrow> machine \<Rightarrow> machine \<Rightarrow> bool" where
  "step_ok x s s' \<longleftrightarrow>
     minv s' \<and> length (sps s') \<le> Suc (length (sps s)) \<and> length (wps s') \<le> Suc (length (wps s))
     \<and> (contract x s \<longrightarrow> torn_pres (mem s) (mem s'))"

section \<open>Example programs\<close>

text \<open>The last owner goes before the last observer, and the other way round.\<close>

definition strong_then_weak :: "op list" where
  "strong_then_weak = [S_raw (Some (Ext 0)) True, W_from_shared 0, S_destroy 0, W_destroy 0]"

definition strong_then_weak_end :: machine where
  "strong_then_weak_end =
     \<lparr>mem = \<lparr>heap = Map.empty, live = {}, members = (\<lambda>p. []),
             log = [Allocate 0, DeleterCall 0 (Some (Ext 0)), Deallocate 0], next_block = 1\<rparr>,
      sps = [None], wps = [None]\<rparr>"

definition weak_then_strong :: "op list" where
  "weak_then_strong = [S_make True, W_from_shared 0, W_destroy 0, S_destroy 0]"

text \<open>An owner built from an observer that is expired, and destroyed.\<close>

definition resurrection :: "op list" where
  "resurrection =
     [S_raw (Some (Ext 0)) True, W_from_shared 0, S_destroy 0, S_from_weak 0, S_destroy 1]"

text \<open>The same with the owner built while the object is alive.\<close>

definition promote_then_destroy :: "op list" where
  "promote_then_destroy =
     [S_raw (Some (Ext 0)) True, W_from_shared 0, S_from_weak 0, S_destroy 0, S_destroy 1]"

definition observed_after_destroy :: "op list" where
  "observed_after_destroy = [S_make True, W_from_shared 0, S_destroy 0]"

definition copy_then_destroy :: "op list" where
  "copy_then_destroy = [S_make True, S_copy 0, S_destroy 0]"

text \<open>
  After another block, an owner is built from the raw pointer \<open>Ext 7\<close>; its last owner
  is destroyed, and an owner is built from the expired observer and destroyed.
\<close>

definition resurrection_of_raw :: "op list" where
  "resurrection_of_raw =
     [S_make True, S_raw (Some (Ext 7)) True, W_from_shared 1, S_destroy 1, S_from_weak 0,
      S_destroy 2]"


section \<open>Single operations\<close>

text \<open>
  C10. Destroying an empty \<open>SharedPtr\<close> or an unbound \<open>WeakPtr\<close> returns the memory it
  was given: no count of any block changes and the log gets no call of \<open>destroy_ptr\<close>
  or \<open>deallocate_block\<close>. A default-constructed owner, a moved-from owner and an owner
  after \<open>reset()\<close> are empty; so are a default-constructed and a moved-from observer.
\<close>

theorem empty_owner_dtor_noop:
  "(block this = None \<longrightarrow> SharedPtr_dtor this m = Inr m)
   \<and> (wblock w = None \<longrightarrow> WeakPtr_dtor w m = Inr m)
   \<and> block SharedPtr_default = None
   \<and> block (snd (SharedPtr_move other)) = None
   \<and> (\<forall>this' m'. reset x m = Inr (this', m') \<longrightarrow> block this' = None)
   \<and> wblock WeakPtr_default = None
   \<and> wblock (snd (WeakPtr_move weak)) = None"
  by (auto simp: SharedPtr_dtor_def WeakPtr_dtor_def SharedPtr_default_def SharedPtr_move_def
      WeakPtr_default_def WeakPtr_move_def reset_def SharedPtr_assign_move_def SharedPtr_swap_def
      split: sum.splits prod.splits)

theorem empty_owner_dtor_noop_witness:
  "SharedPtr_dtor SharedPtr_default example_memory = Inr example_memory
   \<and> WeakPtr_dtor WeakPtr_default example_memory = Inr example_memory
   \<and> reset SharedPtr_default example_memory = Inr (SharedPtr_default, example_memory)"
  using empty_owner_dtor_noop [of SharedPtr_default example_memory WeakPtr_default]
  by (simp add: SharedPtr_default_def WeakPtr_default_def reset_def SharedPtr_assign_move_def
      SharedPtr_move_def SharedPtr_swap_def)





text \<open>
  C9, as amended. When the allocator fails, the constructor from a raw pointer and the
  combined-allocation factory propagate \<open>bad_alloc\<close> with the memory they were
  given, whatever the constructor of \<open>T\<close> would have done: no block exists, no count
  has changed, and neither the destruction policy nor a constructor has been called; in
  particular the object the caller passed by raw pointer is as alive as before.
\<close>

theorem allocation_failure_leaves_memory:
  "SharedPtr_raw p False m = Inl (bad_alloc m)
   \<and> SharedPtr_alloc False built m = Inl (bad_alloc m)
   \<and> allocateShared False built m = Inl (bad_alloc m)
   \<and> makeShared False built m = Inl (bad_alloc m)"
  by (simp add: SharedPtr_raw_def makeShared_def allocateShared_def SharedPtr_alloc_def
      allocate_def)

text \<open>
  C9, as stated, fails on the raw-pointer path: after a failed allocation the caller's
  object exists and no block does.
\<close>

theorem raw_allocation_failure_counterexample:
  "SharedPtr_raw (Some (Ext 0)) False caller_memory = Inl (bad_alloc caller_memory)
   \<and> \<not> both_or_neither (Ext 0) (next_block caller_memory) caller_memory"
  by (simp add: SharedPtr_raw_def allocate_def caller_memory_def both_or_neither_def)

text \<open>
  A constructor of \<open>T\<close> that throws after the allocation has succeeded leaves the
  storage allocated, with no block in it and no owner: nothing deallocates it.
\<close>

lemma constructor_failure_leaks_storage:
  "makeShared True False m =
     Inl (ctor_exception
            (m\<lparr>log := log m @ [Allocate (next_block m)], next_block := Suc (next_block m)\<rparr>))"
  by (simp add: makeShared_def allocateShared_def SharedPtr_alloc_def allocate_def)

text \<open>
  C4, as amended. Move construction of a \<open>SharedPtr\<close> or a \<open>WeakPtr\<close> does not touch
  the memory, gives the new owner the pointer and block of the source and leaves the
  source empty. Move assignment of a \<open>SharedPtr\<close> from a different object does the same
  for the source, and its only effect on the memory is that of destroying the value the
  target held before: none when the target was empty.
\<close>

theorem move_transfers_ownership:
  "SharedPtr_move other =
     (\<lparr>ptr = ptr other, block = block other\<rparr>, \<lparr>ptr = None, block = None\<rparr>)
   \<and> WeakPtr_move weak = (\<lparr>wblock = wblock weak\<rparr>, \<lparr>wblock = None\<rparr>)
   \<and> SharedPtr_assign_move this other m =
       (case SharedPtr_dtor this m of
          Inl e \<Rightarrow> Inl e
        | Inr m' \<Rightarrow>
            Inr ((\<lparr>ptr = ptr other, block = block other\<rparr>, \<lparr>ptr = None, block = None\<rparr>), m'))
   \<and> SharedPtr_assign_move (this\<lparr>block := None\<rparr>) other m =
       Inr ((\<lparr>ptr = ptr other, block = block other\<rparr>, \<lparr>ptr = None, block = None\<rparr>), m)"
  by (simp add: SharedPtr_move_def WeakPtr_move_def SharedPtr_assign_move_def SharedPtr_swap_def
      SharedPtr_dtor_def split: sum.splits)

text \<open>
  C4, as stated, fails for a move assignment onto a bound target: the block the target
  owned alone loses its last owner and is deallocated.
\<close>

theorem move_assignment_counterexample:
  "use_count \<lparr>ptr = Some (Ext 0), block = Some 0\<rparr> two_block_memory = Inr 1
   \<and> (case SharedPtr_assign_move \<lparr>ptr = Some (Ext 0), block = Some 0\<rparr>
             \<lparr>ptr = Some (Emb 1), block = Some 1\<rparr> two_block_memory of
         Inl e \<Rightarrow> False
       | Inr ((this', other'), m') \<Rightarrow>
           heap m' 0 = None
           \<and> log m' = [Allocate 0, Allocate 1, DeleterCall 0 (Some (Ext 0)), Deallocate 0])"
  by (simp add: use_count_def deref_def two_block_memory_def example_block_def
      SharedPtr_assign_move_def SharedPtr_move_def SharedPtr_swap_def SharedPtr_dtor_def
      store_def destroy_ptr_def destroy_object_def deallocate_block_def)

text \<open>
  Move assignment of a \<open>WeakPtr\<close> is a copy assignment: the source stays bound and
  \<open>weak_count\<close> of its block is one more.
\<close>

lemma WeakPtr_assign_move_copies:
  "WeakPtr_assign_move this other m =
     (case WeakPtr_assign_copy this other m of
        Inl e \<Rightarrow> Inl e
      | Inr (this', m') \<Rightarrow> Inr ((this', other), m'))"
  by (simp add: WeakPtr_assign_move_def WeakPtr_assign_copy_def split: sum.splits prod.splits)

lemma WeakPtr_assign_move_example:
  "WeakPtr_assign_move WeakPtr_default \<lparr>wblock = Some 0\<rparr> observed_memory =
     Inr ((\<lparr>wblock = Some 0\<rparr>, \<lparr>wblock = Some 0\<rparr>),
          store 0 (example_block\<lparr>weak_count := 2\<rparr>) example_memory)"
  by (simp add: WeakPtr_assign_move_def WeakPtr_copy_def WeakPtr_swap_def WeakPtr_dtor_def
      WeakPtr_default_def deref_def observed_memory_def example_memory_def example_block_def
      store_def)

text \<open>
  C1 fails on the code when the last observer of a block is a member of the managed
  object. The destructor of the last owner brings \<open>shared_count\<close> to 0 and calls
  \<open>destroy_ptr()\<close>; the destructor of the object destroys the member, whose
  \<open>~WeakPtr()\<close> brings \<open>weak_count\<close> to 0 and, \<open>shared_count\<close> being 0, calls
  \<open>deallocate_block()\<close> before \<open>destroy_ptr()\<close> has returned. Back in
  \<open>~SharedPtr()\<close>, \<open>block->weak_count\<close> is read from storage that is deallocated.
\<close>

theorem self_observer_deallocated_inside_destroy_ptr:
  "destroy_ptr 0 (self_observer_block\<lparr>shared_count := 0\<rparr>)
       (store 0 (self_observer_block\<lparr>shared_count := 0\<rparr>) self_observer_memory) =
     Inr \<lparr>heap = Map.empty, live = {}, members = (\<lambda>p. []),
          log = [Allocate 0, ObjectDestroy 0, Deallocate 0], next_block = 1\<rparr>
   \<and> SharedPtr_dtor \<lparr>ptr = Some (Emb 0), block = Some 0\<rparr> self_observer_memory =
       Inl use_after_free"
  by (simp add: self_observer_memory_def self_observer_block_def SharedPtr_dtor_def
      destroy_ptr_def destroy_object_def WeakPtr_dtor_def deref_def store_def
      deallocate_block_def Let_def fun_eq_iff)

text \<open>That memory is the one the operations build.\<close>

lemma self_observer_memory_built:
  "(case makeShared True True init_memory of
      Inl e \<Rightarrow> False
    | Inr (p, m1) \<Rightarrow>
        (case WeakPtr_from_shared p m1 of
           Inl e \<Rightarrow> False
         | Inr (self, m2) \<Rightarrow>
             p = \<lparr>ptr = Some (Emb 0), block = Some 0\<rparr>
             \<and> m2\<lparr>members := (members m2)(Emb 0 := [self])\<rparr> = self_observer_memory))"
  by (simp add: makeShared_def allocateShared_def SharedPtr_alloc_def allocate_def
      WeakPtr_from_shared_def deref_def store_def init_memory_def self_observer_memory_def
      self_observer_block_def)


section \<open>Invariants of the memory\<close>

lemma countedI:
  "(\<And>b. block_ok (heap m b) (sc b) (wc b)) \<Longrightarrow> (\<And>b. next_block m \<le> b \<Longrightarrow> heap m b = None)
   \<Longrightarrow> counted m sc wc"
  by (simp add: counted_def)

lemma counted_at: "counted m sc wc \<Longrightarrow> block_ok (heap m b) (sc b) (wc b)"
  by (simp add: counted_def)

lemma counted_fresh: "counted m sc wc \<Longrightarrow> next_block m \<le> b \<Longrightarrow> heap m b = None"
  by (simp add: counted_def)

lemma counted_bound:
  "counted m sc wc \<Longrightarrow> sc b \<noteq> 0 \<or> wc b \<noteq> 0 \<Longrightarrow>
     \<exists>blk. heap m b = Some blk \<and> unat (shared_count blk) = sc b \<and> unat (weak_count blk) = wc b"
  using counted_at [of m sc wc b] by (cases "heap m b") auto

lemma unat_inc: "unat (x :: size_t) < SIZE_MAX \<Longrightarrow> unat (x + 1) = Suc (unat x)"
  using unat_add_lem [of x 1] by (simp add: SIZE_MAX_def)

lemma unat_dec: "unat (x :: size_t) \<noteq> 0 \<Longrightarrow> unat (x - 1) = unat x - 1"
  by (metis unat_minus_one unat_0)

lemma size_t_eq_0: "(x = 0) = (unat (x :: size_t) = 0)"
  by (simp add: unat_eq_zero)

lemma size_t_eq_1: "(x = 1) = (unat (x :: size_t) = 1)"
  using word_unat_eq_iff [of x 1] by simp

lemma counted_inc_shared:
  assumes "counted m sc wc" "heap m b = Some blk" "sc b < SIZE_MAX"
  shows "counted (store b (blk\<lparr>shared_count := shared_count blk + 1\<rparr>) m) (bump (Some b) sc) wc"
proof (rule countedI)
  fix b'
  show "block_ok (heap (store b (blk\<lparr>shared_count := shared_count blk + 1\<rparr>) m) b')
          (bump (Some b) sc b') (wc b')"
    using counted_at [OF assms(1), of b'] assms(2,3)
    by (cases "b' = b") (auto simp: store_def bump_def unat_inc)
next
  fix b' assume "next_block (store b (blk\<lparr>shared_count := shared_count blk + 1\<rparr>) m) \<le> b'"
  then show "heap (store b (blk\<lparr>shared_count := shared_count blk + 1\<rparr>) m) b' = None"
    using counted_fresh [OF assms(1), of b'] assms(2) by (auto simp: store_def)
qed

lemma counted_inc_weak:
  assumes "counted m sc wc" "heap m b = Some blk" "wc b < SIZE_MAX"
  shows "counted (store b (blk\<lparr>weak_count := weak_count blk + 1\<rparr>) m) sc (bump (Some b) wc)"
proof (rule countedI)
  fix b'
  show "block_ok (heap (store b (blk\<lparr>weak_count := weak_count blk + 1\<rparr>) m) b')
          (sc b') (bump (Some b) wc b')"
    using counted_at [OF assms(1), of b'] assms(2,3)
    by (cases "b' = b") (auto simp: store_def bump_def unat_inc)
next
  fix b' assume "next_block (store b (blk\<lparr>weak_count := weak_count blk + 1\<rparr>) m) \<le> b'"
  then show "heap (store b (blk\<lparr>weak_count := weak_count blk + 1\<rparr>) m) b' = None"
    using counted_fresh [OF assms(1), of b'] assms(2) by (auto simp: store_def)
qed

lemma no_members_store [simp]: "no_members (store b blk m) = no_members m"
  by (simp add: no_members_def store_def)

lemma no_members_deallocate_block [simp]: "no_members (deallocate_block b m) = no_members m"
  by (simp add: no_members_def deallocate_block_def)

lemma destroy_object_flat:
  "no_members m \<Longrightarrow> destroy_object po m = Inr (m\<lparr>live := live m - set_option po\<rparr>)"
  by (cases m; cases po) (simp_all add: destroy_object_def no_members_def fun_eq_iff)

lemma SharedPtr_dtor_flat:
  "no_members m \<Longrightarrow>
   SharedPtr_dtor this m =
     (if block this = None then Inr m
      else (case deref (block this) m of
              Inl e \<Rightarrow> Inl e
            | Inr (b, blk) \<Rightarrow>
                let blk1 = blk\<lparr>shared_count := shared_count blk - 1\<rparr>;
                    m1 = store b blk1 m
                in if shared_count blk1 \<noteq> 0 then Inr m1
                   else let m2 =
                          (case derived blk1 of
                             ControlBlockRegular p \<Rightarrow>
                               m1\<lparr>heap := (heap m1)(b \<mapsto> blk1\<lparr>derived := ControlBlockRegular None\<rparr>),
                                  live := live m1 - set_option p,
                                  log := log m1 @ [DeleterCall b p]\<rparr>
                           | ControlBlockMakeShared \<Rightarrow>
                               m1\<lparr>live := live m1 - {Emb b}, log := log m1 @ [ObjectDestroy b]\<rparr>)
                        in if weak_count blk1 = 0 then Inr (deallocate_block b m2)
                           else Inr m2))"
  by (cases m)
    (auto simp: SharedPtr_dtor_def destroy_ptr_def destroy_object_flat deref_def store_def
      Let_def no_members_def deallocate_block_def split: option.splits derived.splits)

lemma SharedPtr_dtor_no_members:
  "no_members m \<Longrightarrow> SharedPtr_dtor this m = Inr m' \<Longrightarrow> no_members m'"
  by (auto simp: SharedPtr_dtor_flat deref_def Let_def store_def deallocate_block_def
      no_members_def split: if_splits option.splits derived.splits)

lemma WeakPtr_dtor_no_members:
  "no_members m \<Longrightarrow> WeakPtr_dtor this m = Inr m' \<Longrightarrow> no_members m'"
  by (auto simp: WeakPtr_dtor_def deref_def Let_def store_def deallocate_block_def
      no_members_def split: if_splits option.splits)

lemma SharedPtr_dtor_counted:
  assumes "counted m sc wc" "block this = Some b" "sc b \<noteq> 0" "no_members m"
  shows "\<exists>m'. SharedPtr_dtor this m = Inr m' \<and> counted m' (unbump (Some b) sc) wc"
proof -
  obtain blk where blk: "heap m b = Some blk" "unat (shared_count blk) = sc b"
      "unat (weak_count blk) = wc b"
    using counted_bound [OF assms(1), of b] assms(3) by auto
  have "\<exists>m'. SharedPtr_dtor this m = Inr m'"
    using blk assms(2,4) by (simp add: SharedPtr_dtor_flat deref_def Let_def)
  then obtain m' where m': "SharedPtr_dtor this m = Inr m'" ..
  have "counted m' (unbump (Some b) sc) wc"
  proof (rule countedI)
    fix b'
    show "block_ok (heap m' b') (unbump (Some b) sc b') (wc b')"
      using counted_at [OF assms(1), of b'] blk assms(2,3,4) m'
      by (cases "b' = b")
        (auto simp: SharedPtr_dtor_flat deref_def Let_def store_def
          deallocate_block_def unbump_def unat_dec size_t_eq_0 size_t_eq_1
          split: if_splits derived.splits)
  next
    fix b' assume "next_block m' \<le> b'"
    then show "heap m' b' = None"
      using counted_fresh [OF assms(1), of b'] blk assms(2,3,4) m'
      by (auto simp: SharedPtr_dtor_flat deref_def Let_def store_def
          deallocate_block_def split: if_splits derived.splits)
  qed
  with m' show ?thesis by blast
qed

lemma WeakPtr_dtor_counted:
  assumes "counted m sc wc" "wblock this = Some b" "wc b \<noteq> 0"
  shows "\<exists>m'. WeakPtr_dtor this m = Inr m' \<and> counted m' sc (unbump (Some b) wc)"
proof -
  obtain blk where blk: "heap m b = Some blk" "unat (shared_count blk) = sc b"
      "unat (weak_count blk) = wc b"
    using counted_bound [OF assms(1), of b] assms(3) by auto
  have "\<exists>m'. WeakPtr_dtor this m = Inr m'"
    using blk assms(2) by (simp add: WeakPtr_dtor_def deref_def Let_def)
  then obtain m' where m': "WeakPtr_dtor this m = Inr m'" ..
  have "counted m' sc (unbump (Some b) wc)"
  proof (rule countedI)
    fix b'
    show "block_ok (heap m' b') (sc b') (unbump (Some b) wc b')"
      using counted_at [OF assms(1), of b'] blk assms(2,3) m'
      by (cases "b' = b")
        (auto simp: WeakPtr_dtor_def deref_def Let_def store_def
          deallocate_block_def unbump_def unat_dec size_t_eq_0 size_t_eq_1
          split: if_splits)
  next
    fix b' assume "next_block m' \<le> b'"
    then show "heap m' b' = None"
      using counted_fresh [OF assms(1), of b'] blk assms(2,3) m'
      by (auto simp: WeakPtr_dtor_def deref_def Let_def store_def
          deallocate_block_def split: if_splits)
  qed
  with m' show ?thesis by blast
qed

lemma teardown_events_simps:
  "teardown_events b [] = []"
  "teardown_events b (e # l) =
     (if teardown_of e = Some b then e # teardown_events b l else teardown_events b l)"
  "teardown_events b (l @ l') = teardown_events b l @ teardown_events b l'"
  by (simp_all add: teardown_events_def)

lemma deallocs_simps:
  "deallocs b [] = 0"
  "deallocs b (e # l) = (if e = Deallocate b then Suc (deallocs b l) else deallocs b l)"
  "deallocs b (l @ l') = deallocs b l + deallocs b l'"
  by (simp_all add: deallocs_def)

lemma dealloc_after_append:
  "dealloc_after t b (l @ l') \<longleftrightarrow>
     dealloc_after t b l \<and> dealloc_after (t \<or> teardown_events b l \<noteq> []) b l'"
  by (induction l arbitrary: t) (auto simp: teardown_events_simps)

lemmas log_simps = teardown_events_simps deallocs_simps dealloc_after_append

lemma log_ok_inc_shared:
  assumes "log_ok_at m b'" "heap m b = Some blk" "unat (shared_count blk) < SIZE_MAX" 
  shows "log_ok_at (store b (blk\<lparr>shared_count := shared_count blk + 1\<rparr>) m) b'"
  using assms unat_inc [of "shared_count blk"]
  by (cases "b' = b") (auto simp: log_ok_at_def store_def size_t_eq_0)

lemma log_ok_inc_weak:
  assumes "log_ok_at m b'" "heap m b = Some blk"
  shows "log_ok_at (store b (blk\<lparr>weak_count := weak_count blk + 1\<rparr>) m) b'"
  using assms
  by (cases "b' = b") (auto simp: log_ok_at_def store_def)

lemma once_torn_inc_shared:
  assumes "once_torn m e b'" "heap m b = Some blk" "unat (shared_count blk) < SIZE_MAX"
    "shared_count blk \<noteq> 0"
  shows "once_torn (store b (blk\<lparr>shared_count := shared_count blk + 1\<rparr>) m) e b'"
  using assms unat_inc [of "shared_count blk"]
  by (cases "b' = b") (auto simp: once_torn_def store_def size_t_eq_0 expected_teardown_def)

lemma once_torn_inc_weak:
  assumes "once_torn m e b'" "heap m b = Some blk"
  shows "once_torn (store b (blk\<lparr>weak_count := weak_count blk + 1\<rparr>) m) e b'"
  using assms
  by (cases "b' = b") (auto simp: once_torn_def store_def expected_teardown_def)

lemma log_ok_SharedPtr_dtor:
  assumes "log_ok_at m b'" "block this = Some b" "heap m b = Some blk" "b < next_block m"
    "shared_count blk \<noteq> 0" "SharedPtr_dtor this m = Inr m'" "no_members m"
  shows "log_ok_at m' b'"
  using assms
  by (cases "b' = b")
    (auto simp: log_ok_at_def SharedPtr_dtor_flat deref_def Let_def store_def
      deallocate_block_def log_simps split: if_splits derived.splits)

lemma once_torn_SharedPtr_dtor:
  assumes "once_torn m e b'" "block this = Some b" "heap m b = Some blk"
    "shared_count blk \<noteq> 0" "SharedPtr_dtor this m = Inr m'" "no_members m"
  shows "once_torn m' e b'"
  using assms
  by (cases "b' = b")
    (auto simp: once_torn_def SharedPtr_dtor_flat deref_def Let_def store_def
      deallocate_block_def log_simps expected_teardown_def split: if_splits derived.splits)

lemma log_ok_WeakPtr_dtor:
  assumes "log_ok_at m b'" "wblock this = Some b" "heap m b = Some blk" "b < next_block m"
    "WeakPtr_dtor this m = Inr m'"
  shows "log_ok_at m' b'"
  using assms
  by (cases "b' = b")
    (auto simp: log_ok_at_def WeakPtr_dtor_def deref_def Let_def store_def
      deallocate_block_def log_simps split: if_splits)

lemma once_torn_WeakPtr_dtor:
  assumes "once_torn m e b'" "WeakPtr_dtor this m = Inr m'"
  shows "once_torn m' e b'"
  using assms
  by (cases "wblock this = Some b'")
    (auto simp: once_torn_def WeakPtr_dtor_def deref_def Let_def store_def
      deallocate_block_def log_simps expected_teardown_def split: if_splits option.splits)

lemma torn_pres_refl: "torn_pres m m"
  by (simp add: torn_pres_def)

lemma torn_pres_trans: "torn_pres m m1 \<Longrightarrow> torn_pres m1 m2 \<Longrightarrow> torn_pres m m2"
  unfolding torn_pres_def
  by (metis (no_types, opaque_lifting) le_trans not_le_imp_less order_less_le_trans)

lemma torn_presI:
  "(\<And>e b. once_torn m e b \<Longrightarrow> once_torn m' e b) \<Longrightarrow> next_block m' = next_block m
   \<Longrightarrow> torn_pres m m'"
  by (simp add: torn_pres_def)

lemma mem_inv_block:
  "mem_inv m sc wc \<Longrightarrow> sc b \<noteq> 0 \<or> wc b \<noteq> 0 \<Longrightarrow>
     \<exists>blk. heap m b = Some blk \<and> unat (shared_count blk) = sc b
       \<and> unat (weak_count blk) = wc b \<and> b < next_block m"
  using counted_bound [of m sc wc b] counted_fresh [of m sc wc b]
  by (fastforce simp: mem_inv_def)

lemma next_block_store [simp]: "next_block (store b blk m) = next_block m"
  by (simp add: store_def)

lemma SharedPtr_copy_inv:
  assumes "mem_inv m sc wc" "\<And>b. block other = Some b \<Longrightarrow> sc b \<noteq> 0 \<and> sc b < SIZE_MAX"
  shows "\<exists>m'. SharedPtr_copy other m = Inr (\<lparr>ptr = ptr other, block = block other\<rparr>, m')
           \<and> mem_inv m' (bump (block other) sc) wc \<and> torn_pres m m'"
proof (cases "block other")
  case None
  then show ?thesis using assms(1)
    by (simp add: SharedPtr_copy_def bump_def torn_pres_refl)
next
  case (Some b)
  then have sc: "sc b \<noteq> 0" "sc b < SIZE_MAX" using assms(2) by auto
  then obtain blk where blk: "heap m b = Some blk" "unat (shared_count blk) = sc b"
    using mem_inv_block [OF assms(1), of b] by auto
  let ?m' = "store b (blk\<lparr>shared_count := shared_count blk + 1\<rparr>) m"
  have "SharedPtr_copy other m = Inr (\<lparr>ptr = ptr other, block = block other\<rparr>, ?m')"
    using Some blk by (simp add: SharedPtr_copy_def deref_def)
  moreover have "mem_inv ?m' (bump (block other) sc) wc"
    using assms(1) blk sc Some counted_inc_shared [of m sc wc b blk]
      log_ok_inc_shared [of m _ b blk]
    by (simp add: mem_inv_def log_ok_def)
  moreover have "torn_pres m ?m'"
    using once_torn_inc_shared [of m _ _ b blk] blk sc
    by (intro torn_presI) (auto simp: size_t_eq_0)
  ultimately show ?thesis by blast
qed

lemma SharedPtr_from_weak_inv:
  assumes "mem_inv m sc wc" "wblock weak = Some b" "wc b \<noteq> 0" "sc b < SIZE_MAX"
  shows "\<exists>p m'. SharedPtr_from_weak weak m = Inr (\<lparr>ptr = p, block = Some b\<rparr>, m')
           \<and> mem_inv m' (bump (Some b) sc) wc \<and> (sc b \<noteq> 0 \<longrightarrow> torn_pres m m')"
proof -
  obtain blk where blk: "heap m b = Some blk" "unat (shared_count blk) = sc b"
    using mem_inv_block [OF assms(1), of b] assms(3) by auto
  let ?m' = "store b (blk\<lparr>shared_count := shared_count blk + 1\<rparr>) m"
  have "SharedPtr_from_weak weak m = Inr (\<lparr>ptr = get_ptr b blk, block = Some b\<rparr>, ?m')"
    using assms(2) blk by (simp add: SharedPtr_from_weak_def deref_def)
  moreover have "mem_inv ?m' (bump (Some b) sc) wc"
    using assms(1,4) blk counted_inc_shared [of m sc wc b blk]
      log_ok_inc_shared [of m _ b blk]
    by (simp add: mem_inv_def log_ok_def)
  moreover have "sc b \<noteq> 0 \<longrightarrow> torn_pres m ?m'"
    using once_torn_inc_shared [of m _ _ b blk] blk assms(4)
    by (auto intro!: torn_presI simp: size_t_eq_0)
  ultimately show ?thesis by blast
qed

lemma lock_inv:
  assumes "mem_inv m sc wc" "wblock weak = Some b" "wc b \<noteq> 0" "sc b < SIZE_MAX"
  shows "\<exists>x m'. lock weak m = Inr (x, m') \<and> mem_inv m' (bump (block x) sc) wc
           \<and> torn_pres m m'"
proof -
  obtain blk where blk: "heap m b = Some blk" "unat (shared_count blk) = sc b"
    using mem_inv_block [OF assms(1), of b] assms(3) by auto
  show ?thesis
  proof (cases "shared_count blk = 0")
    case True
    then have "lock weak m = Inr (SharedPtr_default, m)"
      using assms(2) blk by (simp add: lock_def expired_def deref_def)
    then show ?thesis using assms(1)
      by (simp add: SharedPtr_default_def bump_def torn_pres_refl)
  next
    case False
    then have "lock weak m = SharedPtr_from_weak weak m"
      using assms(2) blk by (simp add: lock_def expired_def deref_def)
    moreover have "sc b \<noteq> 0" using False blk by (simp add: size_t_eq_0)
    ultimately show ?thesis
      using SharedPtr_from_weak_inv [OF assms] by fastforce
  qed
qed

lemma SharedPtr_dtor_inv:
  assumes "mem_inv m sc wc" "\<And>b. block this = Some b \<Longrightarrow> sc b \<noteq> 0"
  shows "\<exists>m'. SharedPtr_dtor this m = Inr m' \<and> mem_inv m' (unbump (block this) sc) wc
           \<and> torn_pres m m'"
proof (cases "block this")
  case None
  then show ?thesis using assms(1)
    by (simp add: SharedPtr_dtor_def unbump_def torn_pres_refl)
next
  case (Some b)
  then have sc: "sc b \<noteq> 0" using assms(2) by auto
  then obtain blk where blk: "heap m b = Some blk" "unat (shared_count blk) = sc b"
      "b < next_block m"
    using mem_inv_block [OF assms(1), of b] by auto
  have nm: "no_members m" using assms(1) by (simp add: mem_inv_def)
  obtain m' where m': "SharedPtr_dtor this m = Inr m'" "counted m' (unbump (Some b) sc) wc"
    using SharedPtr_dtor_counted [of m sc wc this b] assms(1) Some sc
    by (auto simp: mem_inv_def)
  have nz: "shared_count blk \<noteq> 0" using blk sc by (simp add: size_t_eq_0)
  have "log_ok m'"
    using log_ok_SharedPtr_dtor [OF _ Some blk(1) blk(3) nz m'(1) nm] assms(1)
    by (simp add: mem_inv_def log_ok_def)
  moreover have "next_block m' = next_block m"
    using m'(1) Some blk(1) nm
    by (auto simp: SharedPtr_dtor_flat deref_def Let_def store_def
        deallocate_block_def split: if_splits derived.splits)
  then have "torn_pres m m'"
    using once_torn_SharedPtr_dtor [OF _ Some blk(1) nz m'(1) nm]
    by (intro torn_presI) auto
  moreover have "no_members m'" using SharedPtr_dtor_no_members [OF nm m'(1)] .
  ultimately show ?thesis using m' Some by (auto simp: mem_inv_def)
qed

lemma WeakPtr_dtor_inv:
  assumes "mem_inv m sc wc" "\<And>b. wblock this = Some b \<Longrightarrow> wc b \<noteq> 0"
  shows "\<exists>m'. WeakPtr_dtor this m = Inr m' \<and> mem_inv m' sc (unbump (wblock this) wc)
           \<and> torn_pres m m'"
proof (cases "wblock this")
  case None
  then show ?thesis using assms(1)
    by (simp add: WeakPtr_dtor_def unbump_def torn_pres_refl)
next
  case (Some b)
  then have wc: "wc b \<noteq> 0" using assms(2) by auto
  then obtain blk where blk: "heap m b = Some blk" "unat (weak_count blk) = wc b"
      "b < next_block m"
    using mem_inv_block [OF assms(1), of b] by auto
  obtain m' where m': "WeakPtr_dtor this m = Inr m'" "counted m' sc (unbump (Some b) wc)"
    using WeakPtr_dtor_counted [of m sc wc this b] assms(1) Some wc
    by (auto simp: mem_inv_def)
  have "log_ok m'"
    using log_ok_WeakPtr_dtor [OF _ Some blk(1) blk(3) m'(1)] assms(1)
    by (simp add: mem_inv_def log_ok_def)
  moreover have "next_block m' = next_block m"
    using m'(1) Some blk(1)
    by (auto simp: WeakPtr_dtor_def deref_def Let_def store_def
        deallocate_block_def split: if_splits)
  then have "torn_pres m m'"
    using once_torn_WeakPtr_dtor [OF _ m'(1)]
    by (intro torn_presI) auto
  moreover have "no_members m'"
    using WeakPtr_dtor_no_members [OF _ m'(1)] assms(1) by (simp add: mem_inv_def)
  ultimately show ?thesis using m' Some by (auto simp: mem_inv_def)
qed

lemma WeakPtr_from_shared_inv:
  assumes "mem_inv m sc wc" "block shared = Some b" "sc b \<noteq> 0" "wc b < SIZE_MAX"
  shows "\<exists>m'. WeakPtr_from_shared shared m = Inr (\<lparr>wblock = Some b\<rparr>, m')
           \<and> mem_inv m' sc (bump (Some b) wc) \<and> torn_pres m m'"
proof -
  obtain blk where blk: "heap m b = Some blk" "unat (weak_count blk) = wc b"
    using mem_inv_block [OF assms(1), of b] assms(3) by auto
  let ?m' = "store b (blk\<lparr>weak_count := weak_count blk + 1\<rparr>) m"
  have "WeakPtr_from_shared shared m = Inr (\<lparr>wblock = Some b\<rparr>, ?m')"
    using assms(2) blk by (simp add: WeakPtr_from_shared_def deref_def)
  moreover have "mem_inv ?m' sc (bump (Some b) wc)"
    using assms(1,4) blk counted_inc_weak [of m sc wc b blk]
      log_ok_inc_weak [of m _ b blk]
    by (simp add: mem_inv_def log_ok_def)
  moreover have "torn_pres m ?m'"
    using once_torn_inc_weak [of m _ _ b blk] blk
    by (auto intro!: torn_presI)
  ultimately show ?thesis by blast
qed

lemma WeakPtr_copy_inv:
  assumes "mem_inv m sc wc" "wblock weak = Some b" "wc b \<noteq> 0" "wc b < SIZE_MAX"
  shows "\<exists>m'. WeakPtr_copy weak m = Inr (\<lparr>wblock = Some b\<rparr>, m')
           \<and> mem_inv m' sc (bump (Some b) wc) \<and> torn_pres m m'"
proof -
  obtain blk where blk: "heap m b = Some blk" "unat (weak_count blk) = wc b"
    using mem_inv_block [OF assms(1), of b] assms(3) by auto
  let ?m' = "store b (blk\<lparr>weak_count := weak_count blk + 1\<rparr>) m"
  have "WeakPtr_copy weak m = Inr (\<lparr>wblock = Some b\<rparr>, ?m')"
    using assms(2) blk by (simp add: WeakPtr_copy_def deref_def)
  moreover have "mem_inv ?m' sc (bump (Some b) wc)"
    using assms(1,4) blk counted_inc_weak [of m sc wc b blk]
      log_ok_inc_weak [of m _ b blk]
    by (simp add: mem_inv_def log_ok_def)
  moreover have "torn_pres m ?m'"
    using once_torn_inc_weak [of m _ _ b blk] blk
    by (auto intro!: torn_presI)
  ultimately show ?thesis by blast
qed

lemma new_block_inv:
  assumes "mem_inv m sc wc"
    and m': "m' = m\<lparr>heap := (heap m)(next_block m \<mapsto>
                 \<lparr>shared_count = 1, weak_count = 0, derived = d\<rparr>),
              live := lv,
              log := log m @ [Allocate (next_block m)],
              next_block := Suc (next_block m)\<rparr>"
  shows "mem_inv m' (bump (Some (next_block m)) sc) wc \<and> torn_pres m m'
         \<and> once_torn m' (expected_teardown (next_block m)
              \<lparr>shared_count = 1, weak_count = 0, derived = d\<rparr>) (next_block m)"
proof -
  let ?b = "next_block m"
  have c: "counted m sc wc" and l: "log_ok m" using assms(1) by (simp_all add: mem_inv_def)
  have fresh: "heap m ?b = None" using counted_fresh [OF c, of ?b] by simp
  have zero: "sc ?b = 0" "wc ?b = 0" using counted_at [OF c, of ?b] fresh by simp_all
  have "counted m' (bump (Some ?b) sc) wc"
  proof (rule countedI)
    fix b'
    show "block_ok (heap m' b') (bump (Some ?b) sc b') (wc b')"
      using counted_at [OF c, of b'] zero by (cases "b' = ?b") (auto simp: m' bump_def)
  next
    fix b' assume "next_block m' \<le> b'"
    then show "heap m' b' = None" using counted_fresh [OF c, of b'] by (auto simp: m')
  qed
  moreover have "log_ok_at m' b'" for b'
    using l [unfolded log_ok_def, rule_format, of b'] fresh
    by (cases "b' = ?b") (auto simp: log_ok_at_def m' log_simps)
  moreover have new: "once_torn m' (expected_teardown ?b
      \<lparr>shared_count = 1, weak_count = 0, derived = d\<rparr>) ?b"
    using l [unfolded log_ok_def, rule_format, of ?b]
    by (simp add: once_torn_def log_ok_at_def m' log_simps)
  moreover have "once_torn m' e b'" if "b' < ?b" "once_torn m e b'" for e b'
    using that by (auto simp: once_torn_def m' log_simps)
  then have "torn_pres m m'"
    unfolding torn_pres_def using new
    by (auto simp: m' less_Suc_eq_le dest: le_antisym)
  moreover have "no_members m'"
    using assms(1) by (simp add: mem_inv_def no_members_def m')
  ultimately show ?thesis by (simp add: mem_inv_def log_ok_def)
qed

lemma SharedPtr_raw_inv:
  assumes "mem_inv m sc wc"
  shows "\<exists>m'. SharedPtr_raw p True m = Inr (\<lparr>ptr = p, block = Some (next_block m)\<rparr>, m')
           \<and> mem_inv m' (bump (Some (next_block m)) sc) wc \<and> torn_pres m m'
           \<and> once_torn m' (DeleterCall (next_block m) p) (next_block m)
           \<and> next_block m' = Suc (next_block m)"
proof -
  let ?m' = "m\<lparr>heap := (heap m)(next_block m \<mapsto>
                 \<lparr>shared_count = 1, weak_count = 0, derived = ControlBlockRegular p\<rparr>),
              live := live m,
              log := log m @ [Allocate (next_block m)],
              next_block := Suc (next_block m)\<rparr>"
  have "SharedPtr_raw p True m = Inr (\<lparr>ptr = p, block = Some (next_block m)\<rparr>, ?m')"
    by (simp add: SharedPtr_raw_def allocate_def store_def)
  then show ?thesis using new_block_inv [OF assms refl, where d = "ControlBlockRegular p" and lv = "live m"]
    by (simp add: expected_teardown_def)
qed

lemma makeShared_inv:
  assumes "mem_inv m sc wc"
  shows "\<exists>m'. makeShared True True m =
             Inr (\<lparr>ptr = Some (Emb (next_block m)), block = Some (next_block m)\<rparr>, m')
           \<and> mem_inv m' (bump (Some (next_block m)) sc) wc \<and> torn_pres m m'"
proof -
  let ?m' = "m\<lparr>heap := (heap m)(next_block m \<mapsto>
                 \<lparr>shared_count = 1, weak_count = 0, derived = ControlBlockMakeShared\<rparr>),
              live := insert (Emb (next_block m)) (live m),
              log := log m @ [Allocate (next_block m)],
              next_block := Suc (next_block m)\<rparr>"
  have "makeShared True True m =
      Inr (\<lparr>ptr = Some (Emb (next_block m)), block = Some (next_block m)\<rparr>, ?m')"
    by (simp add: makeShared_def allocateShared_def SharedPtr_alloc_def allocate_def store_def)
  then show ?thesis
    using new_block_inv [OF assms refl, where d = ControlBlockMakeShared
        and lv = "insert (Emb (next_block m)) (live m)"]
    by simp
qed

lemma bump_nonzero: "f b \<noteq> 0 \<Longrightarrow> bump x f b \<noteq> 0"
  by (simp add: bump_def split: option.splits)

lemma bump_unbump:
  "(\<And>b. y = Some b \<Longrightarrow> f b \<noteq> 0) \<Longrightarrow> unbump y (bump x f) = bump x (unbump y f)"
  by (rule ext) (auto simp: bump_def unbump_def split: option.splits)

lemma SharedPtr_assign_copy_inv:
  assumes "mem_inv m sc wc" "\<And>b. block other = Some b \<Longrightarrow> sc b \<noteq> 0 \<and> sc b < SIZE_MAX"
    "\<And>b. block this = Some b \<Longrightarrow> sc b \<noteq> 0"
  shows "\<exists>m'. SharedPtr_assign_copy this other m =
             Inr (\<lparr>ptr = ptr other, block = block other\<rparr>, m')
           \<and> mem_inv m' (bump (block other) (unbump (block this) sc)) wc \<and> torn_pres m m'"
proof -
  obtain m1 where m1: "SharedPtr_copy other m = Inr (\<lparr>ptr = ptr other, block = block other\<rparr>, m1)"
      "mem_inv m1 (bump (block other) sc) wc" "torn_pres m m1"
    using SharedPtr_copy_inv [OF assms(1,2)] by blast
  obtain m2 where m2: "SharedPtr_dtor this m1 = Inr m2"
      "mem_inv m2 (unbump (block this) (bump (block other) sc)) wc" "torn_pres m1 m2"
    using SharedPtr_dtor_inv [OF m1(2), of this] assms(3) bump_nonzero by blast
  show ?thesis
    using m1 m2 bump_unbump [of "block this" sc "block other"] assms(3)
      torn_pres_trans [OF m1(3) m2(3)]
    by (simp add: SharedPtr_assign_copy_def SharedPtr_swap_def)
qed

lemma SharedPtr_assign_move_inv:
  assumes "mem_inv m sc wc" "\<And>b. block this = Some b \<Longrightarrow> sc b \<noteq> 0"
  shows "\<exists>m'. SharedPtr_assign_move this other m =
             Inr ((\<lparr>ptr = ptr other, block = block other\<rparr>, \<lparr>ptr = None, block = None\<rparr>), m')
           \<and> mem_inv m' (unbump (block this) sc) wc \<and> torn_pres m m'"
proof -
  obtain m' where "SharedPtr_dtor this m = Inr m'" "mem_inv m' (unbump (block this) sc) wc"
      "torn_pres m m'"
    using SharedPtr_dtor_inv [OF assms] by blast
  then show ?thesis
    by (simp add: SharedPtr_assign_move_def SharedPtr_move_def SharedPtr_swap_def)
qed

lemma reset_inv:
  assumes "mem_inv m sc wc" "\<And>b. block this = Some b \<Longrightarrow> sc b \<noteq> 0"
  shows "\<exists>m'. reset this m = Inr (\<lparr>ptr = None, block = None\<rparr>, m')
           \<and> mem_inv m' (unbump (block this) sc) wc \<and> torn_pres m m'"
proof -
  obtain m' where "SharedPtr_assign_move this SharedPtr_default m =
        Inr ((\<lparr>ptr = None, block = None\<rparr>, \<lparr>ptr = None, block = None\<rparr>), m')"
      "mem_inv m' (unbump (block this) sc) wc" "torn_pres m m'"
    using SharedPtr_assign_move_inv [OF assms, where other = SharedPtr_default]
    by (auto simp: SharedPtr_default_def)
  then show ?thesis
    by (simp add: reset_def SharedPtr_dtor_def)
qed

lemma reset_ptr_inv:
  assumes "mem_inv m sc wc" "\<And>b. block this = Some b \<Longrightarrow> sc b \<noteq> 0"
  shows "\<exists>m'. reset_ptr this p True m = Inr (\<lparr>ptr = p, block = Some (next_block m)\<rparr>, m')
           \<and> mem_inv m' (bump (Some (next_block m)) (unbump (block this) sc)) wc
           \<and> torn_pres m m'"
proof -
  obtain m1 where m1: "SharedPtr_raw p True m = Inr (\<lparr>ptr = p, block = Some (next_block m)\<rparr>, m1)"
      "mem_inv m1 (bump (Some (next_block m)) sc) wc" "torn_pres m m1"
    using SharedPtr_raw_inv [OF assms(1)] by blast
  obtain m2 where m2: "SharedPtr_assign_move this \<lparr>ptr = p, block = Some (next_block m)\<rparr> m1 =
        Inr ((\<lparr>ptr = p, block = Some (next_block m)\<rparr>, \<lparr>ptr = None, block = None\<rparr>), m2)"
      "mem_inv m2 (unbump (block this) (bump (Some (next_block m)) sc)) wc" "torn_pres m1 m2"
    using SharedPtr_assign_move_inv [OF m1(2), where this = this
        and other = "\<lparr>ptr = p, block = Some (next_block m)\<rparr>"]
      assms(2) bump_nonzero by fastforce
  show ?thesis
    using m1 m2 bump_unbump [of "block this" sc "Some (next_block m)"] assms(2)
      torn_pres_trans [OF m1(3) m2(3)]
    by (simp add: reset_ptr_def SharedPtr_dtor_def)
qed

lemma WeakPtr_assign_copy_inv:
  assumes "mem_inv m sc wc" "wblock other = Some b" "wc b \<noteq> 0" "wc b < SIZE_MAX"
    "\<And>b. wblock this = Some b \<Longrightarrow> wc b \<noteq> 0"
  shows "\<exists>m'. WeakPtr_assign_copy this other m = Inr (\<lparr>wblock = Some b\<rparr>, m')
           \<and> mem_inv m' sc (bump (Some b) (unbump (wblock this) wc)) \<and> torn_pres m m'"
proof -
  obtain m1 where m1: "WeakPtr_copy other m = Inr (\<lparr>wblock = Some b\<rparr>, m1)"
      "mem_inv m1 sc (bump (Some b) wc)" "torn_pres m m1"
    using WeakPtr_copy_inv [OF assms(1-4)] by blast
  obtain m2 where m2: "WeakPtr_dtor this m1 = Inr m2"
      "mem_inv m2 sc (unbump (wblock this) (bump (Some b) wc))" "torn_pres m1 m2"
    using WeakPtr_dtor_inv [OF m1(2), of this] assms(5) bump_nonzero by blast
  show ?thesis
    using m1 m2 bump_unbump [of "wblock this" wc "Some b"] assms(5)
      torn_pres_trans [OF m1(3) m2(3)]
    by (simp add: WeakPtr_assign_copy_def WeakPtr_swap_def)
qed

section \<open>Invariants of programs\<close>

lemma count_list_update:
  "i < length ys \<Longrightarrow>
     count_list (ys[i := y]) a + (if ys ! i = a then 1 else 0) =
     count_list ys a + (if y = a then 1 else 0)"
proof (induction ys arbitrary: i)
  case Nil
  then show ?case by simp
next
  case (Cons x ys)
  show ?case
  proof (cases i)
    case 0
    then show ?thesis by simp
  next
    case (Suc j)
    then have "j < length ys" using Cons.prems by simp
    from Cons.IH [OF this] show ?thesis using Suc by (auto split: if_splits)
  qed
qed

lemma count_list_pos: "i < length ys \<Longrightarrow> ys ! i = a \<Longrightarrow> count_list ys a \<noteq> 0"
  by (metis count_list_0_iff nth_mem)

lemma sown_append: "sown (xs @ [x]) = bump (slot_block x) (sown xs)"
  by (rule ext) (auto simp: sown_def strong_owners_def bump_def split: option.splits)

lemma sown_update:
  "i < length xs \<Longrightarrow>
     sown (xs[i := y]) = bump (slot_block y) (unbump (slot_block (xs ! i)) (sown xs))"
proof (rule ext)
  fix b assume i: "i < length xs"
  have "count_list (map slot_block (xs[i := y])) (Some b) =
        (count_list (map slot_block xs) (Some b)
          - (if slot_block (xs ! i) = Some b then 1 else 0))
          + (if slot_block y = Some b then 1 else 0)"
    using count_list_update [of i "map slot_block xs" "slot_block y" "Some b"] i
      count_list_pos [of i "map slot_block xs" "Some b"]
    by (auto simp: map_update split: if_splits)
  then show "sown (xs[i := y]) b = bump (slot_block y) (unbump (slot_block (xs ! i)) (sown xs)) b"
    by (auto simp: sown_def strong_owners_def bump_def unbump_def split: option.splits)
qed

lemma sown_pos: "i < length xs \<Longrightarrow> slot_block (xs ! i) = Some b \<Longrightarrow> sown xs b \<noteq> 0"
  using count_list_pos [of i "map slot_block xs" "Some b"]
  by (simp add: sown_def strong_owners_def)

lemma sown_le: "sown xs b \<le> length xs"
  using count_le_length [of "map slot_block xs" "Some b"]
  by (simp add: sown_def strong_owners_def)

lemma wown_append: "wown (xs @ [x]) = bump (wslot_block x) (wown xs)"
  by (rule ext) (auto simp: wown_def weak_owners_def bump_def split: option.splits)

lemma wown_update:
  "i < length xs \<Longrightarrow>
     wown (xs[i := y]) = bump (wslot_block y) (unbump (wslot_block (xs ! i)) (wown xs))"
proof (rule ext)
  fix b assume i: "i < length xs"
  have "count_list (map wslot_block (xs[i := y])) (Some b) =
        (count_list (map wslot_block xs) (Some b)
          - (if wslot_block (xs ! i) = Some b then 1 else 0))
          + (if wslot_block y = Some b then 1 else 0)"
    using count_list_update [of i "map wslot_block xs" "wslot_block y" "Some b"] i
      count_list_pos [of i "map wslot_block xs" "Some b"]
    by (auto simp: map_update split: if_splits)
  then show "wown (xs[i := y]) b = bump (wslot_block y) (unbump (wslot_block (xs ! i)) (wown xs)) b"
    by (auto simp: wown_def weak_owners_def bump_def unbump_def split: option.splits)
qed

lemma wown_pos: "i < length xs \<Longrightarrow> wslot_block (xs ! i) = Some b \<Longrightarrow> wown xs b \<noteq> 0"
  using count_list_pos [of i "map wslot_block xs" "Some b"]
  by (simp add: wown_def weak_owners_def)

lemma wown_le: "wown xs b \<le> length xs"
  using count_le_length [of "map wslot_block xs" "Some b"]
  by (simp add: wown_def weak_owners_def)

lemma ownerD: "owner xs i = Inr x \<Longrightarrow> i < length xs \<and> xs ! i = Some x"
  by (auto simp: owner_def split: if_splits option.splits)

lemma bump_None [simp]: "bump None f = f"
  by (simp add: bump_def)

lemma unbump_None [simp]: "unbump None f = f"
  by (simp add: unbump_def)

lemma slot_block_simps [simp]: "slot_block None = None" "slot_block (Some p) = block p"
  by (simp_all add: slot_block_def)

lemma wslot_block_simps [simp]: "wslot_block None = None" "wslot_block (Some w) = wblock w"
  by (simp_all add: wslot_block_def)

lemma step_S_default:
  assumes "minv s" "step S_default s = Inr s'"
  shows "step_ok S_default s s'"
  using assms by (auto simp: step_ok_def minv_def sown_append SharedPtr_default_def torn_pres_refl)

lemma step_S_raw:
  assumes "minv s" "step (S_raw p ok) s = Inr s'"
  shows "step_ok (S_raw p ok) s s'"
proof (cases ok)
  case True
  obtain m' where "SharedPtr_raw p True (mem s) = Inr (\<lparr>ptr = p, block = Some (next_block (mem s))\<rparr>, m')"
     "mem_inv m' (bump (Some (next_block (mem s))) (sown (sps s))) (wown (wps s))"
     "torn_pres (mem s) m'"
    using SharedPtr_raw_inv [OF assms(1) [unfolded minv_def]] by blast
  then show ?thesis using assms(2) True
    by (auto simp: step_ok_def minv_def declare_sp_def sown_append)
next
  case False
  then show ?thesis using assms
    by (auto simp: step_ok_def minv_def declare_sp_def SharedPtr_raw_def allocate_def torn_pres_refl)
qed

lemma step_S_copy:
  assumes "minv s" "length (sps s) < SIZE_MAX" "step (S_copy k) s = Inr s'"
  shows "step_ok (S_copy k) s s'"
proof -
  obtain other where o: "owner (sps s) k = Inr other"
    using assms(3) by (auto split: sum.splits)
  note k = ownerD [OF o]
  have pre: "\<And>b. block other = Some b \<Longrightarrow> sown (sps s) b \<noteq> 0 \<and> sown (sps s) b < SIZE_MAX"
    using k sown_pos [of k "sps s"] sown_le [of "sps s"] assms(2)
    by (auto intro: le_less_trans)
  obtain m' where "SharedPtr_copy other (mem s) = Inr (\<lparr>ptr = ptr other, block = block other\<rparr>, m')"
      "mem_inv m' (bump (block other) (sown (sps s))) (wown (wps s))" "torn_pres (mem s) m'"
    using SharedPtr_copy_inv [OF assms(1) [unfolded minv_def] pre] by blast
  then show ?thesis using assms(3) o
    by (auto simp: step_ok_def minv_def declare_sp_def sown_append)
qed

lemma step_S_destroy:
  assumes "minv s" "step (S_destroy i) s = Inr s'"
  shows "step_ok (S_destroy i) s s'"
proof -
  obtain this where o: "owner (sps s) i = Inr this"
    using assms(2) by (auto split: sum.splits)
  note i = ownerD [OF o]
  have pre: "\<And>b. block this = Some b \<Longrightarrow> sown (sps s) b \<noteq> 0"
    using i sown_pos [of i "sps s"] by auto
  obtain m' where "SharedPtr_dtor this (mem s) = Inr m'"
      "mem_inv m' (unbump (block this) (sown (sps s))) (wown (wps s))" "torn_pres (mem s) m'"
    using SharedPtr_dtor_inv [OF assms(1) [unfolded minv_def] pre] by blast
  then show ?thesis using assms(2) o i
    by (auto simp: step_ok_def minv_def sown_update)
qed

lemma bump_unbump_id: "(\<And>b. x = Some b \<Longrightarrow> f b \<noteq> 0) \<Longrightarrow> bump x (unbump x f) = f"
  by (rule ext) (auto simp: bump_def unbump_def split: option.splits)

lemma bump_unbump_move:
  "(\<And>b. y = Some b \<Longrightarrow> f b \<noteq> 0) \<Longrightarrow> (\<And>b. x = Some b \<Longrightarrow> unbump y f b \<noteq> 0)
   \<Longrightarrow> bump y (unbump x (unbump y f)) = unbump x f"
  by (rule ext) (auto simp: bump_def unbump_def split: option.splits)

lemma bump_unbump_swap:
  "(\<And>b. x = Some b \<Longrightarrow> f b \<noteq> 0) \<Longrightarrow> (\<And>b. y = Some b \<Longrightarrow> f b \<noteq> 0)
   \<Longrightarrow> bump x (unbump y (bump y (unbump x f))) = f"
  by (rule ext) (auto simp: bump_def unbump_def split: option.splits)

lemma step_S_make:
  assumes "minv s" "step (S_make ok) s = Inr s'"
  shows "step_ok (S_make ok) s s'"
proof (cases ok)
  case True
  obtain m' where "makeShared True True (mem s) =
       Inr (\<lparr>ptr = Some (Emb (next_block (mem s))), block = Some (next_block (mem s))\<rparr>, m')"
     "mem_inv m' (bump (Some (next_block (mem s))) (sown (sps s))) (wown (wps s))"
     "torn_pres (mem s) m'"
    using makeShared_inv [OF assms(1) [unfolded minv_def]] by blast
  then show ?thesis using assms(2) True
    by (auto simp: step_ok_def minv_def declare_sp_def sown_append)
next
  case False
  then show ?thesis using assms
    by (auto simp: step_ok_def minv_def declare_sp_def makeShared_def allocateShared_def
        SharedPtr_alloc_def allocate_def torn_pres_refl)
qed

lemma step_S_move:
  assumes "minv s" "step (S_move k) s = Inr s'"
  shows "step_ok (S_move k) s s'"
proof -
  obtain other where o: "owner (sps s) k = Inr other"
    using assms(2) by (auto split: sum.splits)
  note k = ownerD [OF o]
  have s': "s' = s\<lparr>sps := (sps s)[k := Some (other\<lparr>ptr := None, block := None\<rparr>)]
      @ [Some \<lparr>ptr = ptr other, block = block other\<rparr>]\<rparr>"
    using assms(2) o by (auto simp: SharedPtr_move_def)
  have "sown (sps s') = sown (sps s)"
    using k sown_pos [of k "sps s"] bump_unbump_id [of "block other" "sown (sps s)"]
    by (simp add: s' sown_append sown_update)
  then show ?thesis using assms(1)
    by (simp add: step_ok_def minv_def s' torn_pres_refl)
qed

lemma step_S_from_weak:
  assumes "minv s" "length (sps s) < SIZE_MAX" "step (S_from_weak j) s = Inr s'"
  shows "step_ok (S_from_weak j) s s'"
proof -
  obtain weak where o: "owner (wps s) j = Inr weak"
    using assms(3) by (auto split: sum.splits)
  note j = ownerD [OF o]
  obtain b where b: "wblock weak = Some b"
    using assms(3) o
    by (cases "wblock weak") (auto simp: SharedPtr_from_weak_def deref_def declare_sp_def)
  have wc: "wown (wps s) b \<noteq> 0" using j b wown_pos [of j "wps s" b] by simp
  have sc: "sown (sps s) b < SIZE_MAX"
    using sown_le [of "sps s" b] assms(2) by simp
  obtain p m' where m': "SharedPtr_from_weak weak (mem s) = Inr (\<lparr>ptr = p, block = Some b\<rparr>, m')"
      "mem_inv m' (bump (Some b) (sown (sps s))) (wown (wps s))"
      "sown (sps s) b \<noteq> 0 \<longrightarrow> torn_pres (mem s) m'"
    using SharedPtr_from_weak_inv [OF assms(1) [unfolded minv_def] b wc sc] by blast
  have "contract (S_from_weak j) s \<Longrightarrow> sown (sps s) b \<noteq> 0"
    using mem_inv_block [OF assms(1) [unfolded minv_def], of b] wc o b
    by (auto simp: expired_def deref_def size_t_eq_0)
  then show ?thesis using assms(3) o m'
    by (auto simp: step_ok_def minv_def declare_sp_def sown_append)
qed

lemma step_S_assign_copy:
  assumes "minv s" "length (sps s) < SIZE_MAX" "step (S_assign_copy i k) s = Inr s'"
  shows "step_ok (S_assign_copy i k) s s'"
proof -
  obtain this other where o: "owner (sps s) i = Inr this" "owner (sps s) k = Inr other"
    using assms(3) by (auto split: sum.splits)
  note i = ownerD [OF o(1)] and k = ownerD [OF o(2)]
  have pre: "\<And>b. block other = Some b \<Longrightarrow> sown (sps s) b \<noteq> 0 \<and> sown (sps s) b < SIZE_MAX"
    using k sown_pos [of k "sps s"] sown_le [of "sps s"] assms(2)
    by (auto intro: le_less_trans)
  have pre': "\<And>b. block this = Some b \<Longrightarrow> sown (sps s) b \<noteq> 0"
    using i sown_pos [of i "sps s"] by auto
  obtain m' where "SharedPtr_assign_copy this other (mem s) =
        Inr (\<lparr>ptr = ptr other, block = block other\<rparr>, m')"
      "mem_inv m' (bump (block other) (unbump (block this) (sown (sps s)))) (wown (wps s))"
      "torn_pres (mem s) m'"
    using SharedPtr_assign_copy_inv [OF assms(1) [unfolded minv_def] pre pre'] by blast
  then show ?thesis using assms(3) o i
    by (auto simp: step_ok_def minv_def assign_sp_def sown_update)
qed

lemma step_S_assign_move:
  assumes "minv s" "step (S_assign_move i k) s = Inr s'"
  shows "step_ok (S_assign_move i k) s s'"
proof -
  obtain this other where o: "owner (sps s) i = Inr this" "owner (sps s) k = Inr other"
    using assms(2) by (auto split: sum.splits)
  note i = ownerD [OF o(1)] and k = ownerD [OF o(2)]
  let ?new = "\<lparr>ptr = ptr other, block = block other\<rparr>"
  let ?empty = "\<lparr>ptr = None, block = None\<rparr>"
  have posk: "\<And>b. block other = Some b \<Longrightarrow> sown (sps s) b \<noteq> 0"
    using k sown_pos [of k "sps s"] by auto
  show ?thesis
  proof (cases "i = k")
    case True
    then have s': "s' = s\<lparr>mem := mem s, sps := (sps s)[i := Some ?new]\<rparr>"
      using assms(2) o
      by (simp add: SharedPtr_assign_move_def SharedPtr_move_def SharedPtr_swap_def
          SharedPtr_dtor_def)
    have "sown (sps s') = sown (sps s)"
      using True k o posk bump_unbump_id [of "block other" "sown (sps s)"]
      by (simp add: s' sown_update)
    then show ?thesis using assms(1)
      by (simp add: step_ok_def minv_def s' torn_pres_refl)
  next
    case False
    have pre: "\<And>b. block this = Some b \<Longrightarrow> sown (sps s) b \<noteq> 0"
      using i sown_pos [of i "sps s"] by auto
    obtain m' where m': "SharedPtr_assign_move this other (mem s) = Inr ((?new, ?empty), m')"
        "mem_inv m' (unbump (block this) (sown (sps s))) (wown (wps s))"
        "torn_pres (mem s) m'"
      using SharedPtr_assign_move_inv [OF assms(1) [unfolded minv_def] pre] by blast
    then have s': "s' = s\<lparr>mem := m', sps := (sps s)[k := Some ?empty, i := Some ?new]\<rparr>"
      using assms(2) o False by simp
    have mid: "sown ((sps s)[k := Some ?empty]) = unbump (block other) (sown (sps s))"
      using k by (simp add: sown_update)
    have "\<And>b. block this = Some b \<Longrightarrow> sown ((sps s)[k := Some ?empty]) b \<noteq> 0"
      using i False sown_pos [of i "(sps s)[k := Some ?empty]"] by auto
    then have "sown (sps s') = unbump (block this) (sown (sps s))"
      using i k False posk mid
        bump_unbump_move [of "block other" "sown (sps s)" "block this"]
      by (simp add: s' sown_update)
    then show ?thesis using m'
      by (simp add: step_ok_def minv_def s')
  qed
qed

lemma step_S_reset:
  assumes "minv s" "step (S_reset i) s = Inr s'"
  shows "step_ok (S_reset i) s s'"
proof -
  obtain this where o: "owner (sps s) i = Inr this"
    using assms(2) by (auto split: sum.splits)
  note i = ownerD [OF o]
  have pre: "\<And>b. block this = Some b \<Longrightarrow> sown (sps s) b \<noteq> 0"
    using i sown_pos [of i "sps s"] by auto
  obtain m' where "reset this (mem s) = Inr (\<lparr>ptr = None, block = None\<rparr>, m')"
      "mem_inv m' (unbump (block this) (sown (sps s))) (wown (wps s))" "torn_pres (mem s) m'"
    using reset_inv [OF assms(1) [unfolded minv_def] pre] by blast
  then show ?thesis using assms(2) o i
    by (auto simp: step_ok_def minv_def assign_sp_def sown_update)
qed

lemma step_S_reset_ptr:
  assumes "minv s" "step (S_reset_ptr i p ok) s = Inr s'"
  shows "step_ok (S_reset_ptr i p ok) s s'"
proof -
  obtain this where o: "owner (sps s) i = Inr this"
    using assms(2) by (auto split: sum.splits)
  note i = ownerD [OF o]
  show ?thesis
  proof (cases ok)
    case True
    have pre: "\<And>b. block this = Some b \<Longrightarrow> sown (sps s) b \<noteq> 0"
      using i sown_pos [of i "sps s"] by auto
    obtain m' where "reset_ptr this p True (mem s) =
          Inr (\<lparr>ptr = p, block = Some (next_block (mem s))\<rparr>, m')"
        "mem_inv m' (bump (Some (next_block (mem s))) (unbump (block this) (sown (sps s))))
           (wown (wps s))"
        "torn_pres (mem s) m'"
      using reset_ptr_inv [OF assms(1) [unfolded minv_def] pre] by blast
    then show ?thesis using assms(2) o i True
      by (auto simp: step_ok_def minv_def assign_sp_def sown_update)
  next
    case False
    then show ?thesis using assms o
      by (auto simp: step_ok_def minv_def assign_sp_def reset_ptr_def SharedPtr_raw_def
          allocate_def torn_pres_refl)
  qed
qed

lemma step_S_swap:
  assumes "minv s" "step (S_swap i k) s = Inr s'"
  shows "step_ok (S_swap i k) s s'"
proof -
  obtain this other where o: "owner (sps s) i = Inr this" "owner (sps s) k = Inr other"
    using assms(2) by (auto split: sum.splits)
  note i = ownerD [OF o(1)] and k = ownerD [OF o(2)]
  have s': "s' = s\<lparr>sps := (sps s)[i := Some other, k := Some this]\<rparr>"
    using assms(2) o by (simp add: SharedPtr_swap_def)
  have posi: "\<And>b. block this = Some b \<Longrightarrow> sown (sps s) b \<noteq> 0"
    using i sown_pos [of i "sps s"] by auto
  have posk: "\<And>b. block other = Some b \<Longrightarrow> sown (sps s) b \<noteq> 0"
    using k sown_pos [of k "sps s"] by auto
  have "sown (sps s') = sown (sps s)"
  proof (cases "i = k")
    case True
    then show ?thesis using i k posi bump_unbump_id [of "block this" "sown (sps s)"]
      by (simp add: s' sown_update)
  next
    case False
    then show ?thesis
      using i k posi posk bump_unbump_swap [of "block this" "sown (sps s)" "block other"]
      by (simp add: s' sown_update)
  qed
  then show ?thesis using assms(1)
    by (simp add: step_ok_def minv_def s' torn_pres_refl)
qed

lemma step_W_default:
  assumes "minv s" "step W_default s = Inr s'"
  shows "step_ok W_default s s'"
  using assms by (auto simp: step_ok_def minv_def wown_append WeakPtr_default_def torn_pres_refl)

lemma step_W_from_shared:
  assumes "minv s" "length (wps s) < SIZE_MAX" "step (W_from_shared i) s = Inr s'"
  shows "step_ok (W_from_shared i) s s'"
proof -
  obtain shared where o: "owner (sps s) i = Inr shared"
    using assms(3) by (auto split: sum.splits)
  note i = ownerD [OF o]
  obtain b where b: "block shared = Some b"
    using assms(3) o
    by (cases "block shared") (auto simp: WeakPtr_from_shared_def deref_def declare_wp_def)
  have sc: "sown (sps s) b \<noteq> 0" using i b sown_pos [of i "sps s" b] by simp
  have wc: "wown (wps s) b < SIZE_MAX"
    using wown_le [of "wps s" b] assms(2) by simp
  obtain m' where "WeakPtr_from_shared shared (mem s) = Inr (\<lparr>wblock = Some b\<rparr>, m')"
      "mem_inv m' (sown (sps s)) (bump (Some b) (wown (wps s)))" "torn_pres (mem s) m'"
    using WeakPtr_from_shared_inv [OF assms(1) [unfolded minv_def] b sc wc] by blast
  then show ?thesis using assms(3) o
    by (auto simp: step_ok_def minv_def declare_wp_def wown_append)
qed

lemma step_W_copy:
  assumes "minv s" "length (wps s) < SIZE_MAX" "step (W_copy j) s = Inr s'"
  shows "step_ok (W_copy j) s s'"
proof -
  obtain weak where o: "owner (wps s) j = Inr weak"
    using assms(3) by (auto split: sum.splits)
  note j = ownerD [OF o]
  obtain b where b: "wblock weak = Some b"
    using assms(3) o
    by (cases "wblock weak") (auto simp: WeakPtr_copy_def deref_def declare_wp_def)
  have wc: "wown (wps s) b \<noteq> 0" using j b wown_pos [of j "wps s" b] by simp
  have wc': "wown (wps s) b < SIZE_MAX"
    using wown_le [of "wps s" b] assms(2) by simp
  obtain m' where "WeakPtr_copy weak (mem s) = Inr (\<lparr>wblock = Some b\<rparr>, m')"
      "mem_inv m' (sown (sps s)) (bump (Some b) (wown (wps s)))" "torn_pres (mem s) m'"
    using WeakPtr_copy_inv [OF assms(1) [unfolded minv_def] b wc wc'] by blast
  then show ?thesis using assms(3) o
    by (auto simp: step_ok_def minv_def declare_wp_def wown_append)
qed

lemma step_W_move:
  assumes "minv s" "step (W_move j) s = Inr s'"
  shows "step_ok (W_move j) s s'"
proof -
  obtain weak where o: "owner (wps s) j = Inr weak"
    using assms(2) by (auto split: sum.splits)
  note j = ownerD [OF o]
  have s': "s' = s\<lparr>wps := (wps s)[j := Some (weak\<lparr>wblock := None\<rparr>)]
      @ [Some \<lparr>wblock = wblock weak\<rparr>]\<rparr>"
    using assms(2) o by (auto simp: WeakPtr_move_def)
  have "wown (wps s') = wown (wps s)"
    using j wown_pos [of j "wps s"] bump_unbump_id [of "wblock weak" "wown (wps s)"]
    by (simp add: s' wown_append wown_update)
  then show ?thesis using assms(1)
    by (simp add: step_ok_def minv_def s' torn_pres_refl)
qed

lemma step_W_assign_copy:
  assumes "minv s" "length (wps s) < SIZE_MAX" "step (W_assign_copy j k) s = Inr s'"
  shows "step_ok (W_assign_copy j k) s s'"
proof -
  obtain this other where o: "owner (wps s) j = Inr this" "owner (wps s) k = Inr other"
    using assms(3) by (auto split: sum.splits)
  note j = ownerD [OF o(1)] and k = ownerD [OF o(2)]
  obtain b where b: "wblock other = Some b"
    using assms(3) o
    by (cases "wblock other")
      (auto simp: WeakPtr_assign_copy_def WeakPtr_copy_def deref_def assign_wp_def)
  have wc: "wown (wps s) b \<noteq> 0" using k b wown_pos [of k "wps s" b] by simp
  have wc': "wown (wps s) b < SIZE_MAX"
    using wown_le [of "wps s" b] assms(2) by simp
  have pre: "\<And>b. wblock this = Some b \<Longrightarrow> wown (wps s) b \<noteq> 0"
    using j wown_pos [of j "wps s"] by auto
  obtain m' where "WeakPtr_assign_copy this other (mem s) = Inr (\<lparr>wblock = Some b\<rparr>, m')"
      "mem_inv m' (sown (sps s)) (bump (Some b) (unbump (wblock this) (wown (wps s))))"
      "torn_pres (mem s) m'"
    using WeakPtr_assign_copy_inv [OF assms(1) [unfolded minv_def] b wc wc' pre] by blast
  then show ?thesis using assms(3) o j
    by (auto simp: step_ok_def minv_def assign_wp_def wown_update)
qed

lemma step_W_assign_move:
  assumes "minv s" "length (wps s) < SIZE_MAX" "step (W_assign_move j k) s = Inr s'"
  shows "step_ok (W_assign_move j k) s s'"
proof -
  obtain this other where o: "owner (wps s) j = Inr this" "owner (wps s) k = Inr other"
    using assms(3) by (auto split: sum.splits)
  note j = ownerD [OF o(1)] and k = ownerD [OF o(2)]
  have same: "(wps s)[k := Some other] = wps s"
    using k by (simp add: list_update_same_conv)
  have "step (W_assign_copy j k) s = Inr s'"
    using assms(3) o same
    by (auto simp: WeakPtr_assign_move_copies assign_wp_def split: sum.splits)
  from step_W_assign_copy [OF assms(1,2) this] show ?thesis
    by (simp add: step_ok_def)
qed

lemma step_W_swap:
  assumes "minv s" "step (W_swap j k) s = Inr s'"
  shows "step_ok (W_swap j k) s s'"
proof -
  obtain this other where o: "owner (wps s) j = Inr this" "owner (wps s) k = Inr other"
    using assms(2) by (auto split: sum.splits)
  note j = ownerD [OF o(1)] and k = ownerD [OF o(2)]
  have s': "s' = s\<lparr>wps := (wps s)[j := Some other, k := Some this]\<rparr>"
    using assms(2) o by (simp add: WeakPtr_swap_def)
  have posj: "\<And>b. wblock this = Some b \<Longrightarrow> wown (wps s) b \<noteq> 0"
    using j wown_pos [of j "wps s"] by auto
  have posk: "\<And>b. wblock other = Some b \<Longrightarrow> wown (wps s) b \<noteq> 0"
    using k wown_pos [of k "wps s"] by auto
  have "wown (wps s') = wown (wps s)"
  proof (cases "j = k")
    case True
    then show ?thesis using j k posj bump_unbump_id [of "wblock this" "wown (wps s)"]
      by (simp add: s' wown_update)
  next
    case False
    then show ?thesis
      using j k posj posk bump_unbump_swap [of "wblock this" "wown (wps s)" "wblock other"]
      by (simp add: s' wown_update)
  qed
  then show ?thesis using assms(1)
    by (simp add: step_ok_def minv_def s' torn_pres_refl)
qed

lemma step_W_lock:
  assumes "minv s" "length (sps s) < SIZE_MAX" "step (W_lock j) s = Inr s'"
  shows "step_ok (W_lock j) s s'"
proof -
  obtain weak where o: "owner (wps s) j = Inr weak"
    using assms(3) by (auto split: sum.splits)
  note j = ownerD [OF o]
  obtain b where b: "wblock weak = Some b"
    using assms(3) o
    by (cases "wblock weak") (auto simp: lock_def expired_def deref_def declare_sp_def)
  have wc: "wown (wps s) b \<noteq> 0" using j b wown_pos [of j "wps s" b] by simp
  have sc: "sown (sps s) b < SIZE_MAX"
    using sown_le [of "sps s" b] assms(2) by simp
  obtain x m' where "lock weak (mem s) = Inr (x, m')"
      "mem_inv m' (bump (block x) (sown (sps s))) (wown (wps s))" "torn_pres (mem s) m'"
    using lock_inv [OF assms(1) [unfolded minv_def] b wc sc] by blast
  then show ?thesis using assms(3) o
    by (auto simp: step_ok_def minv_def declare_sp_def sown_append)
qed

lemma step_W_destroy:
  assumes "minv s" "step (W_destroy j) s = Inr s'"
  shows "step_ok (W_destroy j) s s'"
proof -
  obtain this where o: "owner (wps s) j = Inr this"
    using assms(2) by (auto split: sum.splits)
  note j = ownerD [OF o]
  have pre: "\<And>b. wblock this = Some b \<Longrightarrow> wown (wps s) b \<noteq> 0"
    using j wown_pos [of j "wps s"] by auto
  obtain m' where "WeakPtr_dtor this (mem s) = Inr m'"
      "mem_inv m' (sown (sps s)) (unbump (wblock this) (wown (wps s)))" "torn_pres (mem s) m'"
    using WeakPtr_dtor_inv [OF assms(1) [unfolded minv_def] pre] by blast
  then show ?thesis using assms(2) o j
    by (auto simp: step_ok_def minv_def wown_update)
qed

lemma step_preserves:
  assumes "minv s" "length (sps s) < SIZE_MAX" "length (wps s) < SIZE_MAX"
    "step x s = Inr s'"
  shows "step_ok x s s'"
proof (cases x)
  case S_default then show ?thesis using assms step_S_default by simp
next
  case (S_raw p ok) then show ?thesis using assms step_S_raw by simp
next
  case (S_make ok) then show ?thesis using assms step_S_make by simp
next
  case (S_copy k) then show ?thesis using assms step_S_copy by simp
next
  case (S_move k) then show ?thesis using assms step_S_move by simp
next
  case (S_from_weak j) then show ?thesis using assms step_S_from_weak by simp
next
  case (S_assign_copy i k) then show ?thesis using assms step_S_assign_copy by simp
next
  case (S_assign_move i k) then show ?thesis using assms step_S_assign_move by simp
next
  case (S_reset i) then show ?thesis using assms step_S_reset by simp
next
  case (S_reset_ptr i p ok) then show ?thesis using assms step_S_reset_ptr by simp
next
  case (S_swap i k) then show ?thesis using assms step_S_swap by simp
next
  case (S_destroy i) then show ?thesis using assms step_S_destroy by simp
next
  case W_default then show ?thesis using assms step_W_default by simp
next
  case (W_from_shared i) then show ?thesis using assms step_W_from_shared by simp
next
  case (W_copy j) then show ?thesis using assms step_W_copy by simp
next
  case (W_move j) then show ?thesis using assms step_W_move by simp
next
  case (W_assign_copy j k) then show ?thesis using assms step_W_assign_copy by simp
next
  case (W_assign_move j k) then show ?thesis using assms step_W_assign_move by simp
next
  case (W_swap j k) then show ?thesis using assms step_W_swap by simp
next
  case (W_lock j) then show ?thesis using assms step_W_lock by simp
next
  case (W_destroy j) then show ?thesis using assms step_W_destroy by simp
qed

lemma minv_init: "minv init"
  by (simp add: minv_def mem_inv_def init_def init_memory_def counted_def log_ok_def
      log_ok_at_def no_members_def sown_def wown_def strong_owners_def weak_owners_def log_simps)

lemma run_preserves:
  assumes "minv s" "length (sps s) + length ops \<le> SIZE_MAX"
    "length (wps s) + length ops \<le> SIZE_MAX" "run ops s = Inr s'"
  shows "minv s' \<and> length (sps s') \<le> length (sps s) + length ops
         \<and> length (wps s') \<le> length (wps s) + length ops
         \<and> (within_contract ops s \<longrightarrow> torn_pres (mem s) (mem s'))"
  using assms
proof (induction ops arbitrary: s)
  case Nil
  then show ?case by (simp add: torn_pres_refl)
next
  case (Cons x xs)
  then obtain s1 where s1: "step x s = Inr s1" "run xs s1 = Inr s'"
    by (auto split: sum.splits)
  have ok: "step_ok x s s1"
    using step_preserves [OF Cons.prems(1) _ _ s1(1)] Cons.prems(2,3) by simp
  then have *: "minv s1" "length (sps s1) \<le> Suc (length (sps s))"
      "length (wps s1) \<le> Suc (length (wps s))"
    by (simp_all add: step_ok_def)
  have IH: "minv s' \<and> length (sps s') \<le> length (sps s1) + length xs
         \<and> length (wps s') \<le> length (wps s1) + length xs
         \<and> (within_contract xs s1 \<longrightarrow> torn_pres (mem s1) (mem s'))"
    using Cons.IH [OF *(1) _ _ s1(2)] * Cons.prems(2,3) by simp
  have "within_contract (x # xs) s \<longrightarrow> torn_pres (mem s) (mem s')"
    using ok IH s1(1) torn_pres_trans [of "mem s" "mem s1" "mem s'"]
    by (auto simp: step_ok_def)
  then show ?case using IH * by simp
qed

lemma reachable_minv:
  assumes "run ops init = Inr s" "length ops \<le> SIZE_MAX"
  shows "minv s" "length (sps s) \<le> length ops" "length (wps s) \<le> length ops"
    "within_contract ops init \<Longrightarrow> torn_pres init_memory (mem s)"
  using run_preserves [OF minv_init _ _ assms(1)] assms(2)
  by (simp_all add: init_def)

lemma minv_block:
  assumes "minv s"
  shows "block_ok (heap (mem s) b) (strong_owners b (sps s)) (weak_owners b (wps s))"
    and "log_ok_at (mem s) b"
    and "next_block (mem s) \<le> b \<Longrightarrow> heap (mem s) b = None"
  using assms counted_at [of "mem s" "sown (sps s)" "wown (wps s)" b]
    counted_fresh [of "mem s" "sown (sps s)" "wown (wps s)" b]
  by (simp_all add: minv_def mem_inv_def log_ok_def sown_def wown_def)

lemma raw_block_torn:
  assumes "run ops0 init = Inr s0" "step (S_raw p True) s0 = Inr s1" "run ops s1 = Inr s"
    "within_contract ops s1" "length ops0 + length ops < SIZE_MAX"
  shows "once_torn (mem s) (DeleterCall (next_block (mem s0)) p) (next_block (mem s0))"
proof -
  let ?b = "next_block (mem s0)"
  have r0: "minv s0" "length (sps s0) \<le> length ops0" "length (wps s0) \<le> length ops0"
    using reachable_minv(1-3) [OF assms(1)] assms(5) by simp_all
  obtain m1 where m1: "SharedPtr_raw p True (mem s0) = Inr (\<lparr>ptr = p, block = Some ?b\<rparr>, m1)"
      "once_torn m1 (DeleterCall ?b p) ?b" "next_block m1 = Suc ?b"
    using SharedPtr_raw_inv [OF r0(1) [unfolded minv_def]] by blast
  then have s1: "mem s1 = m1" using assms(2) by (auto simp: declare_sp_def)
  have ok: "step_ok (S_raw p True) s0 s1"
    using step_preserves [OF r0(1) _ _ assms(2)] r0 assms(5) by simp
  then have "minv s1" "length (sps s1) \<le> Suc (length (sps s0))"
      "length (wps s1) \<le> Suc (length (wps s0))"
    by (simp_all add: step_ok_def)
  then have "torn_pres (mem s1) (mem s)"
    using run_preserves [OF _ _ _ assms(3)] r0 assms(4,5) by simp
  then show ?thesis
    using m1 s1 by (simp add: torn_pres_def)
qed

lemma no_members_upd: "(\<lambda>p. [])(a := []) = (\<lambda>p. [])"
  by (simp add: fun_eq_iff)

lemmas model_defs = no_members_upd
  init_def init_memory_def owner_def declare_sp_def declare_wp_def assign_sp_def assign_wp_def
  SharedPtr_raw_def makeShared_def allocateShared_def SharedPtr_alloc_def allocate_def store_def
  deref_def destroy_ptr_def destroy_object_def deallocate_block_def get_ptr_def SharedPtr_default_def
  SharedPtr_copy_def SharedPtr_move_def SharedPtr_from_weak_def SharedPtr_swap_def
  SharedPtr_dtor_def WeakPtr_default_def WeakPtr_from_shared_def WeakPtr_copy_def
  WeakPtr_move_def WeakPtr_swap_def expired_def lock_def WeakPtr_dtor_def
  SharedPtr_assign_copy_def SharedPtr_assign_move_def reset_def reset_ptr_def
  WeakPtr_assign_copy_def WeakPtr_assign_move_def use_count_def Let_def

section \<open>Sequences of operations\<close>

text \<open>
  Programs of the machine manage objects that hold no observer. In every state such a
  program reaches from the empty one, for every block: \<open>deallocate_block\<close> has been
  called once if the block has been allocated and is no longer in the heap, and never
  otherwise; every such call comes after a call of \<open>destroy_ptr\<close> of that block; a
  block that has been deallocated has no owner and no observer left; and a block still
  in the heap has counts equal to the numbers of its live owners and observers, not
  both 0.
\<close>

lemma flat_programs_deallocate_once:
  assumes "run ops init = Inr s" "length ops \<le> SIZE_MAX"
  shows "deallocs b (log (mem s)) =
           (if b < next_block (mem s) \<and> heap (mem s) b = None then 1 else 0)"
    and "dealloc_after False b (log (mem s))"
    and "heap (mem s) b = None \<Longrightarrow>
           strong_owners b (sps s) = 0 \<and> weak_owners b (wps s) = 0"
    and "heap (mem s) b = Some blk \<Longrightarrow>
           unat (shared_count blk) = strong_owners b (sps s)
           \<and> unat (weak_count blk) = weak_owners b (wps s)
           \<and> (shared_count blk \<noteq> 0 \<or> weak_count blk \<noteq> 0)"
proof -
  have inv: "minv s" using reachable_minv(1) [OF assms] .
  note b = minv_block [OF inv, of b]
  show "deallocs b (log (mem s)) =
      (if b < next_block (mem s) \<and> heap (mem s) b = None then 1 else 0)"
    using b(2) by (simp add: log_ok_at_def)
  show "dealloc_after False b (log (mem s))"
    using b(2) by (simp add: log_ok_at_def)
  show "heap (mem s) b = None \<Longrightarrow>
           strong_owners b (sps s) = 0 \<and> weak_owners b (wps s) = 0"
    using b(1) by simp
  show "heap (mem s) b = Some blk \<Longrightarrow>
           unat (shared_count blk) = strong_owners b (sps s)
           \<and> unat (weak_count blk) = weak_owners b (wps s)
           \<and> (shared_count blk \<noteq> 0 \<or> weak_count blk \<noteq> 0)"
    using b(1) by (auto simp: size_t_eq_0)
qed

text \<open>
  Both orders occur: the last owner is destroyed first and the destructor of the last
  observer deallocates.
\<close>

lemma strong_then_weak_run: "run strong_then_weak init = Inr strong_then_weak_end"
  by (simp add: strong_then_weak_def strong_then_weak_end_def model_defs)

text \<open>
  The other order: the last observer is destroyed first and the destructor of the last
  owner deallocates.
\<close>

lemma weak_then_strong_run: "run weak_then_strong init =
  Inr \<lparr>mem = \<lparr>heap = Map.empty, live = {}, members = (\<lambda>p. []),
             log = [Allocate 0, ObjectDestroy 0, Deallocate 0], next_block = 1\<rparr>,
      sps = [None], wps = [None]\<rparr>"
  by (simp add: weak_then_strong_def model_defs)

text \<open>
  C3. In every state a program reaches from the empty one, a live owner bound to a
  block finds the block in the heap, \<open>shared_count\<close> of the block is the number of live
  owners bound to it, and \<open>use_count()\<close> returns it.
\<close>

theorem use_count_is_number_of_owners:
  assumes "run ops init = Inr s" "length ops \<le> SIZE_MAX"
    "owner (sps s) i = Inr this" "block this = Some b"
  shows "\<exists>blk. heap (mem s) b = Some blk
           \<and> unat (shared_count blk) = strong_owners b (sps s)
           \<and> use_count this (mem s) = Inr (shared_count blk)"
proof -
  have inv: "minv s" using reachable_minv(1) [OF assms(1,2)] .
  have "strong_owners b (sps s) \<noteq> 0"
    using ownerD [OF assms(3)] assms(4) sown_pos [of i "sps s" b] by (simp add: sown_def)
  then show ?thesis
    using minv_block(1) [OF inv, of b] assms(4)
    by (cases "heap (mem s) b") (auto simp: use_count_def deref_def)
qed

theorem use_count_is_number_of_owners_witness:
  "run copy_then_destroy init = Inr (projr (run copy_then_destroy init))
   \<and> length copy_then_destroy \<le> SIZE_MAX
   \<and> owner (sps (projr (run copy_then_destroy init))) 1 =
        Inr \<lparr>ptr = Some (Emb 0), block = Some 0\<rparr>
   \<and> strong_owners 0 (sps (projr (run copy_then_destroy init))) = 1
   \<and> use_count \<lparr>ptr = Some (Emb 0), block = Some 0\<rparr>
        (mem (projr (run copy_then_destroy init))) = Inr 1"
proof -
  have run: "run copy_then_destroy init = Inr (projr (run copy_then_destroy init))"
    by (simp add: copy_then_destroy_def model_defs)
  have len: "length copy_then_destroy \<le> SIZE_MAX"
    by (simp add: copy_then_destroy_def SIZE_MAX_def)
  have own: "owner (sps (projr (run copy_then_destroy init))) 1 =
        Inr \<lparr>ptr = Some (Emb 0), block = Some 0\<rparr>"
    by (simp add: copy_then_destroy_def model_defs)
  have cnt: "strong_owners 0 (sps (projr (run copy_then_destroy init))) = 1"
    by (simp add: copy_then_destroy_def model_defs strong_owners_def)
  from use_count_is_number_of_owners [OF run len own, of 0] cnt run len own
  show ?thesis by (auto simp: size_t_eq_1)
qed

text \<open>
  C6. In every state a program reaches from the empty one, a live observer bound to a
  block finds the block in the heap, \<open>expired()\<close> returns whether \<open>shared_count\<close> is
  0, and that is the case exactly when no live owner is bound to the block: after the
  last owner is destroyed the block is still allocated and \<open>expired()\<close> is true.
\<close>

theorem expired_iff_no_strong_owner:
  assumes "run ops init = Inr s" "length ops \<le> SIZE_MAX"
    "owner (wps s) j = Inr w" "wblock w = Some b"
  shows "\<exists>blk. heap (mem s) b = Some blk
           \<and> expired w (mem s) = Inr (shared_count blk = 0)
           \<and> (shared_count blk = 0 \<longleftrightarrow> strong_owners b (sps s) = 0)"
proof -
  have inv: "minv s" using reachable_minv(1) [OF assms(1,2)] .
  have "weak_owners b (wps s) \<noteq> 0"
    using ownerD [OF assms(3)] assms(4) wown_pos [of j "wps s" b] by (simp add: wown_def)
  then show ?thesis
    using minv_block(1) [OF inv, of b] assms(4)
    by (cases "heap (mem s) b") (auto simp: expired_def deref_def size_t_eq_0)
qed

theorem expired_iff_no_strong_owner_witness:
  "run observed_after_destroy init = Inr (projr (run observed_after_destroy init))
   \<and> length observed_after_destroy \<le> SIZE_MAX
   \<and> owner (wps (projr (run observed_after_destroy init))) 0 = Inr \<lparr>wblock = Some 0\<rparr>
   \<and> strong_owners 0 (sps (projr (run observed_after_destroy init))) = 0
   \<and> heap (mem (projr (run observed_after_destroy init))) 0 \<noteq> None
   \<and> expired \<lparr>wblock = Some 0\<rparr> (mem (projr (run observed_after_destroy init))) = Inr True"
proof -
  have run: "run observed_after_destroy init = Inr (projr (run observed_after_destroy init))"
    by (simp add: observed_after_destroy_def model_defs)
  have len: "length observed_after_destroy \<le> SIZE_MAX"
    by (simp add: observed_after_destroy_def SIZE_MAX_def)
  have own: "owner (wps (projr (run observed_after_destroy init))) 0 = Inr \<lparr>wblock = Some 0\<rparr>"
    by (simp add: observed_after_destroy_def model_defs)
  have cnt: "strong_owners 0 (sps (projr (run observed_after_destroy init))) = 0"
    by (simp add: observed_after_destroy_def model_defs strong_owners_def)
  from expired_iff_no_strong_owner [OF run len own, of 0] cnt run len own
  show ?thesis by auto
qed

text \<open>
  C2, as amended. In every state reached by a program that builds no owner directly
  from an expired observer, \<open>destroy_ptr\<close> of a block has run exactly once if the block
  has been allocated and its \<open>shared_count\<close> is 0 (or the block is deallocated), and
  not at all while \<open>shared_count\<close> is not 0.
\<close>

theorem teardown_once_within_contract:
  assumes "run ops init = Inr s" "within_contract ops init" "length ops \<le> SIZE_MAX"
  shows "length (teardown_events b (log (mem s))) =
           (if b < next_block (mem s)
               \<and> (case heap (mem s) b of None \<Rightarrow> True | Some blk \<Rightarrow> shared_count blk = 0)
            then 1 else 0)"
proof (cases "b < next_block (mem s)")
  case True
  have "torn_pres init_memory (mem s)"
    using reachable_minv(4) [OF assms(1,3,2)] .
  then obtain e where "once_torn (mem s) e b"
    using True by (auto simp: torn_pres_def init_memory_def)
  then show ?thesis using True
    by (cases "heap (mem s) b") (auto simp: once_torn_def split: if_splits)
next
  case False
  have "log_ok_at (mem s) b"
    using minv_block(2) [OF reachable_minv(1) [OF assms(1,3)]] .
  then show ?thesis using False by (simp add: log_ok_at_def)
qed

theorem teardown_once_within_contract_witness:
  "run promote_then_destroy init = Inr (projr (run promote_then_destroy init))
   \<and> within_contract promote_then_destroy init
   \<and> length promote_then_destroy \<le> SIZE_MAX
   \<and> length (teardown_events 0 (log (mem (projr (run promote_then_destroy init))))) = 1"
proof -
  have run: "run promote_then_destroy init = Inr (projr (run promote_then_destroy init))"
    by (simp add: promote_then_destroy_def model_defs)
  have con: "within_contract promote_then_destroy init"
    by (simp add: promote_then_destroy_def model_defs)
  have len: "length promote_then_destroy \<le> SIZE_MAX"
    by (simp add: promote_then_destroy_def SIZE_MAX_def)
  have "heap (mem (projr (run promote_then_destroy init))) 0 =
      Some \<lparr>shared_count = 0, weak_count = 1, derived = ControlBlockRegular None\<rparr>"
    "next_block (mem (projr (run promote_then_destroy init))) = 1"
    by (simp_all add: promote_then_destroy_def model_defs)
  with teardown_once_within_contract [OF run con len, of 0] run con len
  show ?thesis by simp
qed

text \<open>
  C2, as stated for every sequence of operations, fails: an owner built by
  \<open>SharedPtr(const WeakPtr&)\<close> from an expired observer brings \<open>shared_count\<close> back to
  1, and its destruction runs \<open>destroy_ptr\<close> a second time.
\<close>

theorem teardown_twice_counterexample:
  "case run resurrection init of
     Inl e \<Rightarrow> False
   | Inr s \<Rightarrow>
       teardown_events 0 (log (mem s)) = [DeleterCall 0 (Some (Ext 0)), DeleterCall 0 None]"
  by (simp add: resurrection_def model_defs teardown_events_def)

text \<open>
  C8, as amended. After an owner is constructed from a raw pointer \<open>p\<close> and a
  destruction policy, in every state that a program which builds no owner directly
  from an expired observer reaches from there: while \<open>shared_count\<close> of the new block
  is not 0, the block still holds \<open>p\<close> and the policy has not been called; once
  \<open>shared_count\<close> is 0, that is once the last owner is destroyed, the policy has been
  called exactly once, with \<open>p\<close>.
\<close>

theorem deleter_called_once_with_pointer:
  "run ops0 init = Inr s0 \<and> step (S_raw p True) s0 = Inr s1 \<and> run ops s1 = Inr s
     \<and> within_contract ops s1 \<and> length ops0 + length ops < SIZE_MAX \<longrightarrow>
     (case heap (mem s) (next_block (mem s0)) of
        None \<Rightarrow>
          teardown_events (next_block (mem s0)) (log (mem s)) =
            [DeleterCall (next_block (mem s0)) p]
      | Some blk \<Rightarrow>
          if shared_count blk = 0
          then teardown_events (next_block (mem s0)) (log (mem s)) =
                 [DeleterCall (next_block (mem s0)) p]
          else teardown_events (next_block (mem s0)) (log (mem s)) = []
               \<and> derived blk = ControlBlockRegular p)"
proof
  assume a: "run ops0 init = Inr s0 \<and> step (S_raw p True) s0 = Inr s1 \<and> run ops s1 = Inr s
      \<and> within_contract ops s1 \<and> length ops0 + length ops < SIZE_MAX"
  then have "once_torn (mem s) (DeleterCall (next_block (mem s0)) p) (next_block (mem s0))"
    using raw_block_torn [of ops0 s0 p s1 ops s] by blast
  then show "case heap (mem s) (next_block (mem s0)) of
         None \<Rightarrow>
           teardown_events (next_block (mem s0)) (log (mem s)) =
             [DeleterCall (next_block (mem s0)) p]
       | Some blk \<Rightarrow>
           if shared_count blk = 0
           then teardown_events (next_block (mem s0)) (log (mem s)) =
                  [DeleterCall (next_block (mem s0)) p]
           else teardown_events (next_block (mem s0)) (log (mem s)) = []
                \<and> derived blk = ControlBlockRegular p"
    by (cases "heap (mem s) (next_block (mem s0))")
      (auto simp: once_torn_def expected_teardown_def split: if_splits derived.splits)
qed

theorem deleter_called_once_with_pointer_witness:
  "run [S_make True] init = Inr (projr (run [S_make True] init))
   \<and> step (S_raw (Some (Ext 7)) True) (projr (run [S_make True] init)) =
       Inr (projr (run [S_make True, S_raw (Some (Ext 7)) True] init))
   \<and> run [S_copy 1, S_destroy 1, S_destroy 2]
         (projr (run [S_make True, S_raw (Some (Ext 7)) True] init)) =
       Inr (projr (run [S_make True, S_raw (Some (Ext 7)) True, S_copy 1, S_destroy 1,
                        S_destroy 2] init))
   \<and> within_contract [S_copy 1, S_destroy 1, S_destroy 2]
        (projr (run [S_make True, S_raw (Some (Ext 7)) True] init))
   \<and> teardown_events 1
        (log (mem (projr (run [S_make True, S_raw (Some (Ext 7)) True, S_copy 1, S_destroy 1,
                               S_destroy 2] init)))) =
       [DeleterCall 1 (Some (Ext 7))]"
proof -
  let ?before = "projr (run [S_make True] init)"
  let ?built = "projr (run [S_make True, S_raw (Some (Ext 7)) True] init)"
  let ?final = "projr (run [S_make True, S_raw (Some (Ext 7)) True, S_copy 1, S_destroy 1,
                        S_destroy 2] init)"
  have h0: "run [S_make True] init = Inr ?before"
    by (simp add: model_defs)
  have h1: "step (S_raw (Some (Ext 7)) True) ?before = Inr ?built"
    by (simp add: model_defs)
  have h2: "run [S_copy 1, S_destroy 1, S_destroy 2] ?built = Inr ?final"
    by (simp add: model_defs)
  have h3: "within_contract [S_copy 1, S_destroy 1, S_destroy 2] ?built"
    by (simp add: model_defs)
  have h4: "length [S_make True] + length [S_copy 1, S_destroy 1, S_destroy 2] < SIZE_MAX"
    by (simp add: SIZE_MAX_def)
  have nb: "next_block (mem ?before) = 1" "heap (mem ?final) 1 = None"
    by (simp_all add: model_defs)
  from deleter_called_once_with_pointer
      [of "[S_make True]" ?before "Some (Ext 7)" ?built "[S_copy 1, S_destroy 1, S_destroy 2]"
        ?final]
    nb h0 h1 h2 h3 h4
  show ?thesis by simp
qed

text \<open>
  C8, as stated for every owner constructed from a raw pointer, fails: after the last
  owner of the block is destroyed, an owner built by \<open>SharedPtr(const WeakPtr&)\<close> from
  an expired observer is again the last owner of the block, and its destruction calls
  the policy a second time, with the null pointer that \<open>destroy_ptr()\<close> left in the
  block and not with \<open>Ext 7\<close>, the pointer passed at construction.
\<close>

theorem deleter_called_again_counterexample:
  "case run resurrection_of_raw init of
     Inl e \<Rightarrow> False
   | Inr s \<Rightarrow>
       teardown_events 1 (log (mem s)) = [DeleterCall 1 (Some (Ext 7)), DeleterCall 1 None]"
  by (simp add: resurrection_of_raw_def model_defs teardown_events_def)

end
